theory Spec2Isabelle
  imports Complex_Main
begin

section \<open>Learning-rate schedule\<close>

text \<open>
  \<^verbatim>\<open>train.py\<close> imports \<^verbatim>\<open>WarmupLinearSchedule\<close> and \<^verbatim>\<open>WarmupCosineSchedule\<close> from
  \<^verbatim>\<open>utils/scheduler.py\<close> and only selects one of them by \<^verbatim>\<open>args.decay_type\<close>
  (lines 246-250). The multiplier itself is computed in that module.
\<close>

datatype decay_kind = Linear | Cosine

record schedule_config =
  warmup_steps :: int
  total_steps :: int
  decay :: decay_kind

text \<open>
  Modelled from the spec: the body of the two schedule classes of
  \<^verbatim>\<open>utils/scheduler.py\<close>. Section 4.1: \<^verbatim>\<open>progress = (step - warmup_steps) /
  max(total_steps - warmup_steps, 1)\<close>, clamped to \<^verbatim>\<open>[0,1]\<close>.
\<close>

definition progress :: "schedule_config \<Rightarrow> int \<Rightarrow> real" where
  "progress c step =
     min 1 (max 0 (real_of_int (step - warmup_steps c)
                     / real_of_int (max (total_steps c - warmup_steps c) 1)))"

text \<open>
  Modelled from the spec: the multiplier of section 4.1. Below \<^verbatim>\<open>warmup_steps\<close> it is
  \<^verbatim>\<open>step / max(warmup_steps, 1)\<close>; afterwards \<^verbatim>\<open>1 - progress\<close> for linear decay and
  \<^verbatim>\<open>0.5 * (1 + cos(pi * progress))\<close> for cosine decay.
\<close>

definition rate :: "schedule_config \<Rightarrow> int \<Rightarrow> real" where
  "rate c step =
     (if step < warmup_steps c
      then real_of_int step / real_of_int (max (warmup_steps c) 1)
      else (case decay c of
              Linear \<Rightarrow> 1 - progress c step
            | Cosine \<Rightarrow> 0.5 * (1 + cos (pi * progress c step))))"

definition scenario :: schedule_config where
  "scenario = \<lparr>warmup_steps = 500, total_steps = 10000, decay = Cosine\<rparr>"

section \<open>Python values, errors and paths\<close>

text \<open>
  Exceptions that the modelled lines of \<^verbatim>\<open>train.py\<close> can raise. A raise is a value:
  every function that can fail returns \<open>Inl\<close> of the exception (together with the state
  reached when it was raised, where there is one).
\<close>

datatype error =
    ZeroDivisionError
  | TypeError
  | IndexError
  | RuntimeError
  | AssertionError
  | AttributeError
  | KeyError string
  | FileNotFoundError string
  | UnboundLocalError string

text \<open>
  \<^verbatim>\<open>model.state_dict()\<close> is a dictionary from parameter names to tensors; tensors and
  the optimizer's state dictionary are opaque (\<open>'t\<close>, \<open>'o\<close>).
\<close>

type_synonym 't state_dict = "(string \<times> 't) list"

datatype ('t, 'o) pyval =
    PNone
  | PInt int
  | PFloat real
  | PStateDict "'t state_dict"
  | POptim 'o

text \<open>
  What \<^verbatim>\<open>torch.load\<close> returns: the bare state dictionary written by \<^verbatim>\<open>save_model\<close>
  (line 56), or the dictionary of fields written by \<^verbatim>\<open>save_model_complete\<close>
  (lines 64-69).
\<close>

datatype ('t, 'o) checkpoint =
    Weights "'t state_dict"
  | Complete "(string \<times> ('t, 'o) pyval) list"

fun keys :: "('t, 'o) checkpoint \<Rightarrow> string list" where
  "keys (Weights sd) = map fst sd"
| "keys (Complete d) = map fst d"

text \<open>\<^verbatim>\<open>"{}".format(step)\<close> for a Python \<^verbatim>\<open>int\<close>: decimal digits, with a sign if negative.\<close>

fun digits :: "nat \<Rightarrow> string" where
  "digits n =
     (if n < 10 then [''0123456789'' ! n]
      else digits (n div 10) @ [''0123456789'' ! (n mod 10)])"

declare digits.simps [simp del]

definition format_int :: "int \<Rightarrow> string" where
  "format_int i = (if i < 0 then CHR ''-'' # digits (nat (- i)) else digits (nat i))"

text \<open>\<^verbatim>\<open>os.path.join(a, b)\<close> on a POSIX system, for two components.\<close>

definition path_join :: "string \<Rightarrow> string \<Rightarrow> string" where
  "path_join a b =
     (if b \<noteq> [] \<and> hd b = CHR ''/'' then b
      else if a = [] \<or> last a = CHR ''/'' then a @ b
      else a @ ''/'' @ b)"

section \<open>Command-line arguments and external collaborators\<close>

text \<open>The fields of \<^verbatim>\<open>args\<close> (lines 360-426) that the modelled control flow reads.\<close>

record args =
  local_rank :: int
  dataset :: string
  output_dir :: string
  output_dir_every_checkpoint :: string
  input_dir :: "string option"
  eval_every :: int
  num_steps :: int
  gradient_accumulation_steps :: int

text \<open>\<^verbatim>\<open>args.local_rank in [-1, 0]\<close> (lines 206, 331, 337, 353).\<close>

definition is_primary :: "args \<Rightarrow> bool" where
  "is_primary a = (local_rank a = - 1 \<or> local_rank a = 0)"

text \<open>The class count chosen by \<^verbatim>\<open>setup\<close> (lines 77-82).\<close>

definition num_classes :: "args \<Rightarrow> nat" where
  "num_classes a =
     (if dataset a = ''cifar10'' then 10
      else if dataset a = ''stanford40'' then 40
      else 100)"

text \<open>
  The numerics are outside \<^verbatim>\<open>train.py\<close>: the model's forward and backward pass, the
  optimizer (with gradient clipping and the scheduler step) and the printing of a float.
  They are parameters of the model. A batch is a list of samples with their labels;
  \<open>'g\<close> is the content of the parameters' \<^verbatim>\<open>.grad\<close> buffers. \<open>num_outputs\<close> is the
  number of logits the model produces per sample: the \<^verbatim>\<open>num_classes\<close> it was built with
  (line 84).
\<close>

record ('x, 't, 'o, 'g) externals =
  num_outputs :: nat
  backward :: "'t state_dict \<Rightarrow> ('x \<times> int) list \<Rightarrow> 'g \<Rightarrow> 'g"
  optimizer_step :: "'t state_dict \<Rightarrow> 'o \<Rightarrow> 'g \<Rightarrow> 't state_dict \<times> 'o"
  zero_grad :: "'g"
  new_optimizer :: "'t state_dict \<Rightarrow> 'o"
  predict :: "'t state_dict \<Rightarrow> 'x \<Rightarrow> int"
  format_float :: "real \<Rightarrow> string"

section \<open>Training state\<close>

text \<open>
  What a run observably does, in order. \<open>Optimizer_step n\<close> records the block of lines
  318-326 (clip, \<^verbatim>\<open>scheduler.step()\<close>, \<^verbatim>\<open>optimizer.step()\<close>, \<^verbatim>\<open>zero_grad()\<close>)
  together with the number \<open>n\<close> of micro-batch gradients it consumed.
\<close>

datatype event =
    Makedirs string
  | Writer_open
  | Backward
  | Optimizer_step nat
  | Add_scalar string int
  | Validation int
  | MAP_evaluation int
  | Load_checkpoint string
  | Save_checkpoint string
  | Writer_close

text \<open>
  The local variables of \<^verbatim>\<open>train\<close> and the objects it mutates. \<open>pending\<close> counts the
  \<^verbatim>\<open>backward()\<close> calls accumulated in \<open>grads\<close> since they were last zeroed; \<open>files\<close> is
  the file system as \<^verbatim>\<open>torch.save\<close> and \<^verbatim>\<open>torch.load\<close> see it.
\<close>

record ('t, 'o, 'g) train_state =
  model :: "'t state_dict"
  optimizer :: 'o
  grads :: 'g
  pending :: nat
  global_step :: int
  best_acc :: "('t, 'o) pyval"
  files :: "string \<rightharpoonup> ('t, 'o) checkpoint"
  trace :: "event list"

fun is_optimizer_step :: "event \<Rightarrow> bool" where
  "is_optimizer_step (Optimizer_step n) = True"
| "is_optimizer_step e = False"

definition optimizer_steps :: "event list \<Rightarrow> nat" where
  "optimizer_steps tr = length (filter is_optimizer_step tr)"

definition micro_batches :: "event list \<Rightarrow> nat" where
  "micro_batches tr = length (filter (\<lambda>e. e = Backward) tr)"

section \<open>Checkpoints\<close>

text \<open>\<^verbatim>\<open>not accuracy\<close> for the \<^verbatim>\<open>accuracy\<close> argument: \<^verbatim>\<open>None\<close> or a float.\<close>

fun truthy :: "real option \<Rightarrow> bool" where
  "truthy None = False"
| "truthy (Some r) = (r \<noteq> 0)"

fun stored_accuracy :: "real option \<Rightarrow> ('t, 'o) pyval" where
  "stored_accuracy None = PNone"
| "stored_accuracy (Some r) = PFloat r"

fun format_accuracy :: "(real \<Rightarrow> string) \<Rightarrow> real option \<Rightarrow> string" where
  "format_accuracy fmt None = ''None''"
| "format_accuracy fmt (Some r) = fmt r"

text \<open>
  \<^verbatim>\<open>save_model_complete\<close> (lines 59-70): the directory and file name of
  \<^verbatim>\<open>checkpoint_file\<close>, and the dictionary handed to \<^verbatim>\<open>torch.save\<close>.
\<close>

definition checkpoint_target :: "args \<Rightarrow> (real \<Rightarrow> string) \<Rightarrow> real option \<Rightarrow> int \<Rightarrow> string \<times> string" where
  "checkpoint_target a fmt accuracy step =
     (if \<not> truthy accuracy
      then (output_dir_every_checkpoint a, ''step_'' @ format_int step @ ''_checkpoint.pth'')
      else (output_dir a,
            ''best_acc_step_'' @ format_int step @ ''_acc_'' @ format_accuracy fmt accuracy
              @ ''_checkpoint.pth''))"

definition save_model_complete ::
  "args \<Rightarrow> (real \<Rightarrow> string) \<Rightarrow> 't state_dict \<Rightarrow> 'o \<Rightarrow> real option \<Rightarrow> int
     \<Rightarrow> string \<times> (string \<times> ('t, 'o) pyval) list" where
  "save_model_complete a fmt model_sd optimizer_sd accuracy step =
     (let (dir, name) = checkpoint_target a fmt accuracy step;
          checkpoint_file = path_join dir name
      in (checkpoint_file,
          [(''step'', PInt step),
           (''model_state_dict'', PStateDict model_sd),
           (''optimizer_state_dict'', POptim optimizer_sd),
           (''best_accuracy'', stored_accuracy accuracy)]))"

text \<open>
  \<^verbatim>\<open>model.load_state_dict(sd)\<close> with the default \<^verbatim>\<open>strict=True\<close>: the names in \<open>sd\<close>
  must be exactly the model's parameter names, else \<^verbatim>\<open>RuntimeError\<close>. (Tensor shapes
  are opaque here.)
\<close>

definition load_state_dict :: "'t state_dict \<Rightarrow> 't state_dict \<Rightarrow> error + 't state_dict" where
  "load_state_dict cur sd =
     (if set (map fst sd) = set (map fst cur)
      then Inr (map (\<lambda>(k, v). (k, case map_of sd k of Some w \<Rightarrow> w | None \<Rightarrow> v)) cur)
      else Inl RuntimeError)"

text \<open>\<^verbatim>\<open>model.load_state_dict(checkpoint['model_state_dict'])\<close> (lines 170 and 283).\<close>

definition load_model_field :: "'t state_dict \<Rightarrow> ('t, 'o) checkpoint \<Rightarrow> error + 't state_dict" where
  "load_model_field cur ck =
     (if ''model_state_dict'' \<notin> set (keys ck) then Inl (KeyError ''model_state_dict'')
      else (case ck of
              Weights sd \<Rightarrow> Inl TypeError
            | Complete d \<Rightarrow>
                (case map_of d ''model_state_dict'' of
                   Some (PStateDict sd) \<Rightarrow> load_state_dict cur sd
                 | _ \<Rightarrow> Inl TypeError)))"

text \<open>
  The resume block of \<^verbatim>\<open>train\<close> (lines 273-289). The two lines that would restore the
  optimizer state and the step counter (284, 285) are comments in the source. A
  dictionary of fields without the key \<^verbatim>\<open>model_state_dict\<close> is handed to
  \<^verbatim>\<open>load_state_dict\<close> as it is, where its keys are not parameter names.
\<close>

definition resume ::
  "args \<Rightarrow> ('t, 'o, 'g) train_state \<Rightarrow> (error \<times> ('t, 'o, 'g) train_state) + ('t, 'o, 'g) train_state" where
  "resume a st =
     (let st0 = st\<lparr>global_step := 0, best_acc := PInt 0\<rparr>
      in case input_dir a of
           None \<Rightarrow> Inr st0
         | Some checkpoint_file \<Rightarrow>
             if checkpoint_file = [] then Inr st0
             else (case files st0 checkpoint_file of
                     None \<Rightarrow> Inl (FileNotFoundError checkpoint_file, st0)
                   | Some checkpoint \<Rightarrow>
                       let st1 = st0\<lparr>trace := trace st0 @ [Load_checkpoint checkpoint_file]\<rparr>
                       in if ''model_state_dict'' \<in> set (keys checkpoint)
                          then (case load_model_field (model st1) checkpoint of
                                  Inl e \<Rightarrow> Inl (e, st1)
                                | Inr m \<Rightarrow>
                                    (case checkpoint of
                                       Weights sd \<Rightarrow> Inl (TypeError, st1\<lparr>model := m\<rparr>)
                                     | Complete d \<Rightarrow>
                                         (case map_of d ''best_accuracy'' of
                                            None \<Rightarrow> Inl (KeyError ''best_accuracy'', st1\<lparr>model := m\<rparr>)
                                          | Some v \<Rightarrow> Inr (st1\<lparr>model := m, best_acc := v\<rparr>))))
                          else (case checkpoint of
                                  Weights sd \<Rightarrow>
                                    (case load_state_dict (model st1) sd of
                                       Inl e \<Rightarrow> Inl (e, st1)
                                     | Inr m \<Rightarrow> Inr (st1\<lparr>model := m\<rparr>))
                                | Complete d \<Rightarrow>
                                    if d = [] \<and> model st1 = [] then Inr st1
                                    else Inl (RuntimeError, st1))))"

section \<open>Evaluation\<close>

text \<open>
  \<^verbatim>\<open>simple_accuracy\<close> (line 50): the mean of the element-wise comparison of two arrays
  of the same length. (On empty arrays numpy's mean is \<^verbatim>\<open>nan\<close>, which the reals do not
  have; a data loader yields no empty batch, and \<^verbatim>\<open>valid\<close> raises before it gets here
  when there is no batch at all.)
\<close>

definition simple_accuracy :: "int list \<Rightarrow> int list \<Rightarrow> real" where
  "simple_accuracy preds labels =
     real (length (filter (\<lambda>(p, l). p = l) (zip preds labels))) / real (length labels)"

text \<open>
  \<^verbatim>\<open>valid\<close> (lines 109-160), called with the current \<^verbatim>\<open>global_step\<close>. The predictions
  and labels of all batches are concatenated; \<^verbatim>\<open>all_preds[0]\<close> (line 148) raises
  \<^verbatim>\<open>IndexError\<close> when the loader yielded no batch. The two scalars go to the writer.
\<close>

definition valid ::
  "('x, 't, 'o, 'g) externals \<Rightarrow> ('x \<times> int) list list \<Rightarrow> ('t, 'o, 'g) train_state
     \<Rightarrow> (error \<times> ('t, 'o, 'g) train_state) + (real \<times> ('t, 'o, 'g) train_state)" where
  "valid ext test_loader st =
     (let st1 = st\<lparr>trace := trace st @ [Validation (global_step st)]\<rparr>
      in if test_loader = [] then Inl (IndexError, st1)
         else
           let all_preds = concat (map (map (\<lambda>(x, y). predict ext (model st) x)) test_loader);
               all_label = concat (map (map snd) test_loader);
               accuracy = simple_accuracy all_preds all_label
           in Inr (accuracy,
                   st1\<lparr>trace := trace st1 @ [Add_scalar ''test/accuracy'' (global_step st),
                                                Add_scalar ''test/loss'' (global_step st)]\<rparr>))"

text \<open>
  \<^verbatim>\<open>torch.nn.functional.one_hot(y, num_classes=n)\<close>: raises \<^verbatim>\<open>RuntimeError\<close> unless every
  class value is in \<open>[0, n)\<close>; otherwise one row of length \<open>n\<close> per label.
\<close>

definition one_hot :: "int list \<Rightarrow> nat \<Rightarrow> error + nat list list" where
  "one_hot y n =
     (if \<exists>c \<in> set y. c < 0 \<or> int n \<le> c then Inl RuntimeError
      else Inr (map (\<lambda>c. map (\<lambda>j. if int j = c then 1 else 0) [0..<n]) y))"

text \<open>\<^verbatim>\<open>tnt.meter.ConfusionMeter(k=40)\<close> followed by \<^verbatim>\<open>reset()\<close> (lines 176, 179).\<close>

definition confusion_k :: nat where
  "confusion_k = 40"

definition conf_matrix_reset :: "nat list list" where
  "conf_matrix_reset = replicate confusion_k (replicate confusion_k 0)"

text \<open>
  The one-hot targets of the loop of \<^verbatim>\<open>mAp\<close> (line 187), batch by batch.
\<close>

fun mAp_targets :: "('x \<times> int) list list \<Rightarrow> error + nat list list list" where
  "mAp_targets [] = Inr []"
| "mAp_targets (batch # rest) =
     (case one_hot (map snd batch) 40 of
        Inl e \<Rightarrow> Inl e
      | Inr one_hot_y \<Rightarrow>
          (case mAp_targets rest of
             Inl e \<Rightarrow> Inl e
           | Inr ts \<Rightarrow> Inr (one_hot_y # ts)))"

text \<open>
  The loop of \<^verbatim>\<open>mAp\<close> (lines 183-195) for a model with \<open>n\<close> outputs. After the one-hot
  encoding of the labels, \<^verbatim>\<open>conf_matrix.add(probs, one_hot_y)\<close> (line 194) asserts that
  \<^verbatim>\<open>probs\<close> has as many columns as the confusion matrix has classes. The other meters
  belong to \<^verbatim>\<open>torchnet\<close> and are not modelled.
\<close>

fun mAp_batches :: "nat \<Rightarrow> ('x \<times> int) list list \<Rightarrow> error + nat list list list" where
  "mAp_batches n [] = Inr []"
| "mAp_batches n (batch # rest) =
     (case one_hot (map snd batch) 40 of
        Inl e \<Rightarrow> Inl e
      | Inr one_hot_y \<Rightarrow>
          if n \<noteq> confusion_k then Inl AssertionError
          else (case mAp_batches n rest of
                  Inl e \<Rightarrow> Inl e
                | Inr ts \<Rightarrow> Inr (one_hot_y # ts)))"

text \<open>The path written into line 168.\<close>

definition hard_coded_checkpoint :: string where
  "hard_coded_checkpoint =
     ''/content/best_acc/TrainedModels/best_acc_step_100_acc_0.9081706435285611_checkpoint.pth''"

text \<open>
  \<^verbatim>\<open>mAp\<close> (lines 162-202). Called with \<^verbatim>\<open>global_step = -1\<close> it first replaces the model's
  weights by those of the hard-coded checkpoint file. After a loop over no batch at all
  the meters are empty, and \<^verbatim>\<open>test_map.value()\<close> (line 198) takes the mean of the
  number 0 that the empty average-precision meter returns, which raises
  \<^verbatim>\<open>AttributeError\<close>.
\<close>

definition mAp ::
  "args \<Rightarrow> ('x, 't, 'o, 'g) externals \<Rightarrow> ('x \<times> int) list list \<Rightarrow> int
     \<Rightarrow> ('t, 'o, 'g) train_state
     \<Rightarrow> (error \<times> ('t, 'o, 'g) train_state) + ('t, 'o, 'g) train_state" where
  "mAp a ext test_loader gs st =
     (case (if gs = - 1
            then (case files st hard_coded_checkpoint of
                    None \<Rightarrow> Inl (FileNotFoundError hard_coded_checkpoint, st)
                  | Some checkpoint_continue \<Rightarrow>
                      let st1 = st\<lparr>trace := trace st @ [Load_checkpoint hard_coded_checkpoint]\<rparr>
                      in (case load_model_field (model st1) checkpoint_continue of
                            Inl e \<Rightarrow> Inl (e, st1)
                          | Inr m \<Rightarrow> Inr (st1\<lparr>model := m\<rparr>)))
            else Inr st) of
        Inl e \<Rightarrow> Inl e
      | Inr st2 \<Rightarrow>
          (case mAp_batches (num_outputs ext) test_loader of
             Inl e \<Rightarrow> Inl (e, st2)
           | Inr targets \<Rightarrow>
               if test_loader = [] then Inl (AttributeError, st2)
               else Inr (st2\<lparr>trace := trace st2 @ [MAP_evaluation gs, Add_scalar ''test/mAp'' gs]\<rparr>)))"

section \<open>Best-checkpoint policy\<close>

text \<open>
  \<^verbatim>\<open>best_acc < accuracy\<close> (line 342), where \<^verbatim>\<open>accuracy\<close> is a float: in Python 3 an
  ordering comparison of \<^verbatim>\<open>None\<close> or of a dictionary with a number raises
  \<^verbatim>\<open>TypeError\<close>.
\<close>

fun py_less :: "('t, 'o) pyval \<Rightarrow> real \<Rightarrow> error + bool" where
  "py_less (PInt i) x = Inr (real_of_int i < x)"
| "py_less (PFloat r) x = Inr (r < x)"
| "py_less v x = Inl TypeError"

text \<open>The number a stored best accuracy stands for, if it is one.\<close>

fun numeric_value :: "('t, 'o) pyval \<Rightarrow> real option" where
  "numeric_value (PInt i) = Some (real_of_int i)"
| "numeric_value (PFloat r) = Some r"
| "numeric_value v = None"

text \<open>Lines 342-344: save and remember the accuracy when it is strictly higher.\<close>

definition update_best ::
  "args \<Rightarrow> ('x, 't, 'o, 'g) externals \<Rightarrow> real \<Rightarrow> ('t, 'o, 'g) train_state
     \<Rightarrow> (error \<times> ('t, 'o, 'g) train_state) + ('t, 'o, 'g) train_state" where
  "update_best a ext accuracy st =
     (case py_less (best_acc st) accuracy of
        Inl e \<Rightarrow> Inl (e, st)
      | Inr higher \<Rightarrow>
          if higher
          then (let (checkpoint_file, content) =
                      save_model_complete a (format_float ext) (model st) (optimizer st)
                        (Some accuracy) (global_step st)
                in Inr (st\<lparr>files := (files st)(checkpoint_file \<mapsto> Complete content),
                            trace := trace st @ [Save_checkpoint checkpoint_file],
                            best_acc := PFloat accuracy\<rparr>))
          else Inr st)"

text \<open>Lines 338-345: the body of the evaluation branch.\<close>

definition evaluate ::
  "args \<Rightarrow> ('x, 't, 'o, 'g) externals \<Rightarrow> ('x \<times> int) list list \<Rightarrow> ('t, 'o, 'g) train_state
     \<Rightarrow> (error \<times> ('t, 'o, 'g) train_state) + ('t, 'o, 'g) train_state" where
  "evaluate a ext test_loader st =
     (case valid ext test_loader st of
        Inl e \<Rightarrow> Inl e
      | Inr (accuracy, st1) \<Rightarrow>
          (case mAp a ext test_loader (global_step st1) st1 of
             Inl e \<Rightarrow> Inl e
           | Inr st2 \<Rightarrow> update_best a ext accuracy st2))"

text \<open>
  The policy alone, over the accuracies of successive evaluations: the retained best
  and, for each accuracy, whether it was saved.
\<close>

fun best_policy :: "real \<Rightarrow> real list \<Rightarrow> real \<times> bool list" where
  "best_policy best [] = (best, [])"
| "best_policy best (accuracy # rest) =
     (if best < accuracy
      then (let (b, saves) = best_policy accuracy rest in (b, True # saves))
      else (let (b, saves) = best_policy best rest in (b, False # saves)))"

text \<open>
  The evaluations of a run one after the other, as far as lines 342-344 are concerned:
  each observed accuracy goes through \<open>update_best\<close> in the state the one before has
  left. The flags tell which of the calls wrote a checkpoint.
\<close>

fun observe ::
  "args \<Rightarrow> ('x, 't, 'o, 'g) externals \<Rightarrow> real list \<Rightarrow> ('t, 'o, 'g) train_state
     \<Rightarrow> (error \<times> ('t, 'o, 'g) train_state) + (bool list \<times> ('t, 'o, 'g) train_state)" where
  "observe a ext [] st = Inr ([], st)"
| "observe a ext (accuracy # rest) st =
     (case update_best a ext accuracy st of
        Inl e \<Rightarrow> Inl e
      | Inr st1 \<Rightarrow>
          (case observe a ext rest st1 of
             Inl e \<Rightarrow> Inl e
           | Inr (saved, st2) \<Rightarrow> Inr ((trace st1 \<noteq> trace st) # saved, st2)))"

text \<open>The best accuracy retained after these observations.\<close>

definition retained ::
  "args \<Rightarrow> ('x, 't, 'o, 'g) externals \<Rightarrow> real list \<Rightarrow> ('t, 'o, 'g) train_state \<Rightarrow> real option" where
  "retained a ext xs st =
     (case observe a ext xs st of
        Inl e \<Rightarrow> None
      | Inr (saved, st1) \<Rightarrow> numeric_value (best_acc st1))"

section \<open>The training loop\<close>

text \<open>The condition of line 317, for the index \<^verbatim>\<open>step\<close> of \<^verbatim>\<open>enumerate\<close>.\<close>

definition window_complete :: "args \<Rightarrow> nat \<Rightarrow> bool" where
  "window_complete a step = ((int step + 1) mod gradient_accumulation_steps a = 0)"

text \<open>Lines 318-326.\<close>

definition window_update ::
  "('x, 't, 'o, 'g) externals \<Rightarrow> ('t, 'o, 'g) train_state \<Rightarrow> ('t, 'o, 'g) train_state" where
  "window_update ext st =
     (let (m, opt) = optimizer_step ext (model st) (optimizer st) (grads st)
      in st\<lparr>model := m, optimizer := opt, grads := zero_grad ext,
             trace := trace st @ [Optimizer_step (pending st)], pending := 0,
             global_step := global_step st + 1\<rparr>)"

text \<open>Lines 331-333.\<close>

definition log_scalars :: "args \<Rightarrow> ('t, 'o, 'g) train_state \<Rightarrow> ('t, 'o, 'g) train_state" where
  "log_scalars a st =
     (if is_primary a
      then st\<lparr>trace := trace st @ [Add_scalar ''train/loss'' (global_step st),
                                     Add_scalar ''train/lr'' (global_step st)]\<rparr>
      else st)"

text \<open>
  The body of the \<^verbatim>\<open>for\<close> loop (lines 305-348) for the batch with index \<^verbatim>\<open>step\<close>. The
  result carries the \<^verbatim>\<open>break\<close> of line 348. A modulus of zero raises
  \<^verbatim>\<open>ZeroDivisionError\<close>.
\<close>

definition micro_batch ::
  "args \<Rightarrow> ('x, 't, 'o, 'g) externals \<Rightarrow> ('x \<times> int) list list \<Rightarrow> nat \<Rightarrow> ('x \<times> int) list
     \<Rightarrow> ('t, 'o, 'g) train_state
     \<Rightarrow> (error \<times> ('t, 'o, 'g) train_state) + (bool \<times> ('t, 'o, 'g) train_state)" where
  "micro_batch a ext test_loader step batch st =
     (let st1 = st\<lparr>grads := backward ext (model st) batch (grads st),
                    pending := Suc (pending st),
                    trace := trace st @ [Backward]\<rparr>
      in if gradient_accumulation_steps a = 0 then Inl (ZeroDivisionError, st1)
         else if window_complete a step
         then (let st2 = log_scalars a (window_update ext st1)
               in if eval_every a = 0 then Inl (ZeroDivisionError, st2)
                  else (case (if global_step st2 mod eval_every a = 0 \<and> is_primary a
                              then evaluate a ext test_loader st2
                              else Inr st2) of
                          Inl e \<Rightarrow> Inl e
                        | Inr st3 \<Rightarrow>
                            if num_steps a = 0 then Inl (ZeroDivisionError, st3)
                            else Inr (global_step st3 mod num_steps a = 0, st3)))
         else Inr (False, st1))"

text \<open>The \<^verbatim>\<open>for\<close> loop over \<^verbatim>\<open>enumerate(epoch_iterator)\<close> (lines 304-348).\<close>

fun run_batches ::
  "args \<Rightarrow> ('x, 't, 'o, 'g) externals \<Rightarrow> ('x \<times> int) list list \<Rightarrow> nat \<Rightarrow> ('x \<times> int) list list
     \<Rightarrow> ('t, 'o, 'g) train_state
     \<Rightarrow> (error \<times> ('t, 'o, 'g) train_state) + (bool \<times> ('t, 'o, 'g) train_state)" where
  "run_batches a ext test_loader step [] st = Inr (False, st)"
| "run_batches a ext test_loader step (batch # rest) st =
     (case micro_batch a ext test_loader step batch st of
        Inl e \<Rightarrow> Inl e
      | Inr (brk, st1) \<Rightarrow>
          if brk then Inr (True, st1)
          else run_batches a ext test_loader (Suc step) rest st1)"

text \<open>
  The \<^verbatim>\<open>while True\<close> loop (lines 297-351): one pass over the training loader from index
  0, then the test of line 350. A run that never leaves the loop has the value \<open>None\<close>.
\<close>

partial_function (option) train_loop ::
  "args \<Rightarrow> ('x, 't, 'o, 'g) externals \<Rightarrow> ('x \<times> int) list list \<Rightarrow> ('x \<times> int) list list
     \<Rightarrow> ('t, 'o, 'g) train_state
     \<Rightarrow> ((error \<times> ('t, 'o, 'g) train_state) + ('t, 'o, 'g) train_state) option" where
  "train_loop a ext train_loader test_loader st =
     (case run_batches a ext test_loader 0 train_loader st of
        Inl e \<Rightarrow> Some (Inl e)
      | Inr (brk, st1) \<Rightarrow>
          if num_steps a = 0 then Some (Inl (ZeroDivisionError, st1))
          else if global_step st1 mod num_steps a = 0 then Some (Inr st1)
          else train_loop a ext train_loader test_loader st1)"

declare train_loop.simps [code]

text \<open>
  \<^verbatim>\<open>train\<close> (lines 204-356). \<^verbatim>\<open>writer\<close> is assigned only under the test of line 206,
  so reading it at line 294 on another rank raises \<^verbatim>\<open>UnboundLocalError\<close>. After the
  loop, \<^verbatim>\<open>"%f" % best_acc\<close> (line 355) raises \<^verbatim>\<open>TypeError\<close> unless the best accuracy
  is a number.
\<close>

definition train ::
  "args \<Rightarrow> ('x, 't, 'o, 'g) externals \<Rightarrow> ('x \<times> int) list list \<Rightarrow> ('x \<times> int) list list
     \<Rightarrow> ('t, 'o, 'g) train_state
     \<Rightarrow> ((error \<times> ('t, 'o, 'g) train_state) + ('t, 'o, 'g) train_state) option" where
  "train a ext train_loader test_loader st =
     (let st1 = (if is_primary a
                 then st\<lparr>trace := trace st @ [Makedirs (output_dir a), Writer_open]\<rparr>
                 else st)
      in if gradient_accumulation_steps a = 0 then Some (Inl (ZeroDivisionError, st1))
         else
           (case resume a (st1\<lparr>optimizer := new_optimizer ext (model st1)\<rparr>) of
              Inl e \<Rightarrow> Some (Inl e)
            | Inr st2 \<Rightarrow>
                let st3 = st2\<lparr>grads := zero_grad ext, pending := 0\<rparr>
                in if \<not> is_primary a then Some (Inl (UnboundLocalError ''writer'', st3))
                   else (case mAp a ext test_loader (- 1) st3 of
                           Inl e \<Rightarrow> Some (Inl e)
                         | Inr st4 \<Rightarrow>
                             (case train_loop a ext train_loader test_loader st4 of
                                None \<Rightarrow> None
                              | Some (Inl e) \<Rightarrow> Some (Inl e)
                              | Some (Inr st5) \<Rightarrow>
                                  let st6 = st5\<lparr>trace := trace st5 @ [Writer_close]\<rparr>
                                  in if numeric_value (best_acc st6) = None
                                     then Some (Inl (TypeError, st6))
                                     else Some (Inr st6)))))"

text \<open>The state a result ends in, raised or not.\<close>

fun final :: "(error \<times> 's) + (bool \<times> 's) \<Rightarrow> 's" where
  "final (Inl (e, s)) = s"
| "final (Inr (b, s)) = s"

fun state_of :: "(error \<times> 's) + 's \<Rightarrow> 's" where
  "state_of (Inl (e, s)) = s"
| "state_of (Inr s) = s"

text \<open>
  Two states are equally far in training: same step counter, same number of pending
  micro-batches, same numbers of optimizer steps and of micro-batches in the trace.
\<close>

definition same_progress :: "('t, 'o, 'g) train_state \<Rightarrow> ('t, 'o, 'g) train_state \<Rightarrow> bool" where
  "same_progress st s =
     (global_step s = global_step st \<and> pending s = pending st
      \<and> optimizer_steps (trace s) = optimizer_steps (trace st)
      \<and> micro_batches (trace s) = micro_batches (trace st))"

section \<open>Concrete inputs\<close>

text \<open>
  A small configuration on which the theorems below are instantiated: one process
  (\<^verbatim>\<open>local_rank = -1\<close>), the dataset with 40 classes and a model with 40 outputs, two
  micro-batches per optimizer step, two optimizer steps in total, evaluation after every
  second step. Tensors and optimizer states are numbers.
\<close>

definition ex_args :: args where
  "ex_args =
     \<lparr>local_rank = - 1, dataset = ''stanford40'', output_dir = ''out'',
      output_dir_every_checkpoint = ''every'', input_dir = None, eval_every = 2,
      num_steps = 2, gradient_accumulation_steps = 2\<rparr>"

definition ex_format :: "real \<Rightarrow> string" where
  "ex_format r = (if r = 1 / 2 then ''0.5'' else ''x'')"

definition ex_ext :: "(nat, nat, nat, nat) externals" where
  "ex_ext =
     \<lparr>num_outputs = 40,
      backward = (\<lambda>m batch g. g + 1),
      optimizer_step = (\<lambda>m opt g. (map (\<lambda>(k, v). (k, v + g)) m, opt + 1)),
      zero_grad = 0,
      new_optimizer = (\<lambda>m. 0),
      predict = (\<lambda>m x. int x),
      format_float = ex_format\<rparr>"

definition ex_state :: "(nat, nat, nat) train_state" where
  "ex_state =
     \<lparr>model = [(''head.weight'', 0)], optimizer = 0, grads = 0, pending = 0,
      global_step = 0, best_acc = PInt 0, files = Map.empty, trace = []\<rparr>"

text \<open>Three training batches per epoch; a test set of two samples, one predicted right.\<close>

definition ex_train_loader :: "(nat \<times> int) list list" where
  "ex_train_loader = [[(0, 0)], [(1, 1)], [(2, 2)]]"

definition ex_test_loader :: "(nat \<times> int) list list" where
  "ex_test_loader = [[(1, 1), (2, 5)]]"

text \<open>
  A complete-state checkpoint as \<^verbatim>\<open>save_model_complete\<close> writes it at step 100, with
  optimizer state 5, and a run that resumes from it with a fresh optimizer (state 0).
\<close>

definition ex_saved :: "(nat, nat) checkpoint" where
  "ex_saved =
     Complete (snd (save_model_complete ex_args ex_format [(''head.weight'', 7)] 5 (Some (1 / 2)) 100))"

definition ex_resume_args :: args where
  "ex_resume_args = ex_args\<lparr>input_dir := Some ''ckpt.pth''\<rparr>"

definition ex_resume_state :: "(nat, nat, nat) train_state" where
  "ex_resume_state = ex_state\<lparr>files := [''ckpt.pth'' \<mapsto> ex_saved]\<rparr>"


lemma progress_range: "0 \<le> progress c step \<and> progress c step \<le> 1"
  by (simp add: progress_def)

lemma warmup_range:
  assumes "0 \<le> step" and "step < w"
  shows "0 \<le> real_of_int step / real_of_int (max w 1)"
    and "real_of_int step / real_of_int (max w 1) \<le> 1"
  using assms by (simp_all add: max_def)

lemma cosine_range:
  assumes "0 \<le> p" and "p \<le> 1"
  shows "0 \<le> 0.5 * (1 + cos (pi * p))" and "0.5 * (1 + cos (pi * p)) \<le> 1"
proof -
  have lo: "0 \<le> 1 + cos (pi * p)"
    using cos_ge_minus_one [of "pi * p"] by linarith
  have hi: "cos (pi * p) \<le> 1"
    by (rule cos_le_one)
  from lo show "0 \<le> 0.5 * (1 + cos (pi * p))" by simp
  from hi show "0.5 * (1 + cos (pi * p)) \<le> 1" by simp
qed

lemma rate_range:
  assumes "0 \<le> step"
  shows "0 \<le> rate c step \<and> rate c step \<le> 1"
proof (cases "step < warmup_steps c")
  case True
  with assms warmup_range [of step "warmup_steps c"] show ?thesis
    by (simp add: rate_def)
next
  case False
  note pr = progress_range [of c step]
  show ?thesis
  proof (cases "decay c")
    case Linear
    with False pr show ?thesis by (simp add: rate_def)
  next
    case Cosine
    with False pr cosine_range [of "progress c step"] show ?thesis
      by (simp add: rate_def)
  qed
qed

lemma scenario_values:
  "rate scenario 250 = 0.5" "rate scenario 500 = 1" "rate scenario 10000 = 0"
  by (simp_all add: rate_def progress_def scenario_def)

text \<open>
  C7. For every step \<open>\<ge> 0\<close> the schedule multiplier lies in \<open>[0,1]\<close>; below
  \<open>warmup_steps\<close> it is \<open>step / max(warmup_steps, 1)\<close>; from there on, with
  \<open>progress = (step - warmup_steps) / max(total_steps - warmup_steps, 1)\<close> clamped to
  \<open>[0,1]\<close>, it is \<open>1 - progress\<close> for linear decay and \<open>0.5 * (1 + cos(pi * progress))\<close>
  for cosine decay; with 500 warmup steps, 10000 total steps and cosine decay the
  multiplier is 0.5 at step 250, 1 at step 500 and 0 at step 10000. The multiplier is a
  HOL function of the configuration and the step, hence pure and deterministic.
\<close>

theorem rate_contract:
  assumes "0 \<le> step"
  shows "(0 \<le> rate c step \<and> rate c step \<le> 1)
       \<and> (step < warmup_steps c \<longrightarrow>
            rate c step = real_of_int step / real_of_int (max (warmup_steps c) 1))
       \<and> (\<not> step < warmup_steps c \<longrightarrow>
            progress c step
              = min 1 (max 0 (real_of_int (step - warmup_steps c)
                              / real_of_int (max (total_steps c - warmup_steps c) 1)))
          \<and> (decay c = Linear \<longrightarrow> rate c step = 1 - progress c step)
          \<and> (decay c = Cosine \<longrightarrow> rate c step = 0.5 * (1 + cos (pi * progress c step))))
       \<and> rate \<lparr>warmup_steps = 500, total_steps = 10000, decay = Cosine\<rparr> 250 = 0.5
       \<and> rate \<lparr>warmup_steps = 500, total_steps = 10000, decay = Cosine\<rparr> 500 = 1
       \<and> rate \<lparr>warmup_steps = 500, total_steps = 10000, decay = Cosine\<rparr> 10000 = 0"
proof -
  have r: "0 \<le> rate c step \<and> rate c step \<le> 1"
    using assms by (rule rate_range)
  have w: "step < warmup_steps c \<longrightarrow>
      rate c step = real_of_int step / real_of_int (max (warmup_steps c) 1)"
    by (simp add: rate_def)
  have d: "\<not> step < warmup_steps c \<longrightarrow>
      progress c step
        = min 1 (max 0 (real_of_int (step - warmup_steps c)
                        / real_of_int (max (total_steps c - warmup_steps c) 1)))
      \<and> (decay c = Linear \<longrightarrow> rate c step = 1 - progress c step)
      \<and> (decay c = Cosine \<longrightarrow> rate c step = 0.5 * (1 + cos (pi * progress c step)))"
    by (simp add: rate_def progress_def)
  from r w d scenario_values show ?thesis
    unfolding scenario_def by blast
qed

theorem rate_contract_witness:
  "(0::int) \<le> 9000
   \<and> 0 \<le> rate \<lparr>warmup_steps = 500, total_steps = 10000, decay = Linear\<rparr> 9000
   \<and> rate \<lparr>warmup_steps = 500, total_steps = 10000, decay = Linear\<rparr> 9000 \<le> 1
   \<and> rate \<lparr>warmup_steps = 500, total_steps = 10000, decay = Linear\<rparr> 9000
       = 1 - progress \<lparr>warmup_steps = 500, total_steps = 10000, decay = Linear\<rparr> 9000"
  using rate_contract [of 9000 "\<lparr>warmup_steps = 500, total_steps = 10000, decay = Linear\<rparr>"]
  by simp

section \<open>Properties of the checkpoint writer\<close>

lemma best_name_not_step_name:
  "''best_acc_step_'' @ xs \<noteq> ''step_'' @ ys"
  by simp

lemma take_best_name: "take 9 (''best_acc_step_'' @ xs) = ''best_acc_''"
  by simp

lemma take_step_name: "take 9 (''step_'' @ xs) \<noteq> ''best_acc_''"
  by simp

lemma update_best_saves:
  assumes "py_less (best_acc st) x = Inr True"
  shows "update_best a ext x st =
           Inr (st\<lparr>files := (files st)
                      (fst (save_model_complete a (format_float ext) (model st) (optimizer st)
                              (Some x) (global_step st))
                       \<mapsto> Complete (snd (save_model_complete a (format_float ext) (model st)
                                           (optimizer st) (Some x) (global_step st)))),
                    trace := trace st @ [Save_checkpoint
                      (fst (save_model_complete a (format_float ext) (model st) (optimizer st)
                              (Some x) (global_step st)))],
                    best_acc := PFloat x\<rparr>)"
  using assms by (simp add: update_best_def split: prod.splits)

text \<open>
  C8. \<^verbatim>\<open>save_model_complete\<close> writes to the best-accuracy path (under \<^verbatim>\<open>output_dir\<close>,
  with step and accuracy in the file name) exactly when its accuracy argument is truthy;
  with accuracy \<^verbatim>\<open>None\<close> or \<^verbatim>\<open>0.0\<close> it writes to the every-checkpoint directory under the
  step-named scheme, also when the call comes from the best-accuracy branch of the
  training loop (line 343).
\<close>

theorem save_path_iff_truthy:
  "fst (save_model_complete a fmt m opt accuracy step)
     = path_join (fst (checkpoint_target a fmt accuracy step))
                 (snd (checkpoint_target a fmt accuracy step))
   \<and> (truthy accuracy \<longrightarrow>
        checkpoint_target a fmt accuracy step
          = (output_dir a,
             ''best_acc_step_'' @ format_int step @ ''_acc_'' @ format_accuracy fmt accuracy
               @ ''_checkpoint.pth''))
   \<and> (\<not> truthy accuracy \<longrightarrow>
        checkpoint_target a fmt accuracy step
          = (output_dir_every_checkpoint a, ''step_'' @ format_int step @ ''_checkpoint.pth''))
   \<and> (take 9 (snd (checkpoint_target a fmt accuracy step)) = ''best_acc_'' \<longleftrightarrow> truthy accuracy)
   \<and> checkpoint_target a fmt None step
        = (output_dir_every_checkpoint a, ''step_'' @ format_int step @ ''_checkpoint.pth'')
   \<and> checkpoint_target a fmt (Some 0) step
        = (output_dir_every_checkpoint a, ''step_'' @ format_int step @ ''_checkpoint.pth'')
   \<and> (py_less (best_acc st) 0 = Inr True \<longrightarrow>
        update_best a ext 0 st
          = Inr (st\<lparr>files := (files st)
                      (path_join (output_dir_every_checkpoint a)
                                 (''step_'' @ format_int (global_step st) @ ''_checkpoint.pth'')
                       \<mapsto> Complete (snd (save_model_complete a (format_float ext) (model st)
                                           (optimizer st) (Some 0) (global_step st)))),
                   trace := trace st @ [Save_checkpoint
                      (path_join (output_dir_every_checkpoint a)
                                 (''step_'' @ format_int (global_step st) @ ''_checkpoint.pth''))],
                   best_acc := PFloat 0\<rparr>))"
proof -
  have p: "fst (save_model_complete a fmt m opt accuracy step)
     = path_join (fst (checkpoint_target a fmt accuracy step))
                 (snd (checkpoint_target a fmt accuracy step))"
    by (simp add: save_model_complete_def split: prod.splits)
  have t: "truthy accuracy \<longrightarrow>
        checkpoint_target a fmt accuracy step
          = (output_dir a,
             ''best_acc_step_'' @ format_int step @ ''_acc_'' @ format_accuracy fmt accuracy
               @ ''_checkpoint.pth'')"
    by (simp add: checkpoint_target_def)
  have f: "\<not> truthy accuracy \<longrightarrow>
        checkpoint_target a fmt accuracy step
          = (output_dir_every_checkpoint a, ''step_'' @ format_int step @ ''_checkpoint.pth'')"
    by (simp add: checkpoint_target_def)
  have i: "take 9 (snd (checkpoint_target a fmt accuracy step)) = ''best_acc_'' \<longleftrightarrow> truthy accuracy"
  proof (cases "truthy accuracy")
    case True
    with t take_best_name show ?thesis by simp
  next
    case False
    with f take_step_name show ?thesis by simp
  qed
  have n: "checkpoint_target a fmt None step
        = (output_dir_every_checkpoint a, ''step_'' @ format_int step @ ''_checkpoint.pth'')"
    by (simp add: checkpoint_target_def)
  have z: "checkpoint_target a fmt (Some 0) step
        = (output_dir_every_checkpoint a, ''step_'' @ format_int step @ ''_checkpoint.pth'')"
    by (simp add: checkpoint_target_def)
  have zp: "fst (save_model_complete a (format_float ext) (model st) (optimizer st) (Some 0)
                   (global_step st))
        = path_join (output_dir_every_checkpoint a)
                    (''step_'' @ format_int (global_step st) @ ''_checkpoint.pth'')"
    by (simp add: save_model_complete_def checkpoint_target_def)
  have u: "py_less (best_acc st) 0 = Inr True \<longrightarrow>
        update_best a ext 0 st
          = Inr (st\<lparr>files := (files st)
                      (path_join (output_dir_every_checkpoint a)
                                 (''step_'' @ format_int (global_step st) @ ''_checkpoint.pth'')
                       \<mapsto> Complete (snd (save_model_complete a (format_float ext) (model st)
                                           (optimizer st) (Some 0) (global_step st)))),
                   trace := trace st @ [Save_checkpoint
                      (path_join (output_dir_every_checkpoint a)
                                 (''step_'' @ format_int (global_step st) @ ''_checkpoint.pth''))],
                   best_acc := PFloat 0\<rparr>)"
    using update_best_saves [of st 0 a ext] zp by simp
  from p t f i n z u show ?thesis by blast
qed

theorem save_path_iff_truthy_witness:
  "truthy (Some (1 / 2))
   \<and> checkpoint_target ex_args ex_format (Some (1 / 2)) 7
       = (''out'', ''best_acc_step_7_acc_0.5_checkpoint.pth'')
   \<and> \<not> truthy (Some 0)
   \<and> checkpoint_target ex_args ex_format (Some 0) 7 = (''every'', ''step_7_checkpoint.pth'')
   \<and> py_less (best_acc (ex_state\<lparr>best_acc := PFloat (- 1)\<rparr>)) 0 = Inr True
   \<and> trace (state_of (update_best ex_args ex_ext 0 (ex_state\<lparr>best_acc := PFloat (- 1)\<rparr>)))
       = [Save_checkpoint ''every/step_0_checkpoint.pth'']"
proof -
  have f7: "format_int 7 = ''7''" and f0: "format_int 0 = ''0''"
    by (simp_all add: format_int_def digits.simps)
  have t: "truthy (Some (1 / 2))" and z: "\<not> truthy (Some 0)"
    by simp_all
  have l: "py_less (best_acc (ex_state\<lparr>best_acc := PFloat (- 1)\<rparr>)) 0 = Inr True"
    by simp
  from t save_path_iff_truthy [where a = ex_args and fmt = ex_format
      and accuracy = "Some (1 / 2)" and step = 7 and m = "model ex_state" and opt = "0::nat"
      and ext = ex_ext and st = ex_state]
  have "checkpoint_target ex_args ex_format (Some (1 / 2)) 7
       = (output_dir ex_args,
          ''best_acc_step_'' @ format_int 7 @ ''_acc_'' @ format_accuracy ex_format (Some (1 / 2))
            @ ''_checkpoint.pth'')"
    by blast
  then have b: "checkpoint_target ex_args ex_format (Some (1 / 2)) 7
       = (''out'', ''best_acc_step_7_acc_0.5_checkpoint.pth'')"
    by (simp add: f7 ex_args_def ex_format_def)
  from z save_path_iff_truthy [where a = ex_args and fmt = ex_format
      and accuracy = "Some 0" and step = 7 and m = "model ex_state" and opt = "0::nat"
      and ext = ex_ext and st = ex_state]
  have "checkpoint_target ex_args ex_format (Some 0) 7
       = (output_dir_every_checkpoint ex_args, ''step_'' @ format_int 7 @ ''_checkpoint.pth'')"
    by blast
  then have e: "checkpoint_target ex_args ex_format (Some 0) 7
       = (''every'', ''step_7_checkpoint.pth'')"
    by (simp add: f7 ex_args_def)
  from l save_path_iff_truthy [where a = ex_args and ext = ex_ext
      and st = "ex_state\<lparr>best_acc := PFloat (- 1)\<rparr>" and fmt = ex_format
      and accuracy = "Some 0" and step = 7 and m = "model ex_state" and opt = "0::nat"]
  have "trace (state_of (update_best ex_args ex_ext 0 (ex_state\<lparr>best_acc := PFloat (- 1)\<rparr>)))
      = trace (ex_state\<lparr>best_acc := PFloat (- 1)\<rparr>)
        @ [Save_checkpoint
             (path_join (output_dir_every_checkpoint ex_args)
                (''step_'' @ format_int (global_step (ex_state\<lparr>best_acc := PFloat (- 1)\<rparr>))
                   @ ''_checkpoint.pth''))]"
    by simp
  then have u: "trace (state_of (update_best ex_args ex_ext 0
                                  (ex_state\<lparr>best_acc := PFloat (- 1)\<rparr>)))
      = [Save_checkpoint ''every/step_0_checkpoint.pth'']"
    by (simp add: ex_state_def ex_args_def f0 path_join_def)
  from t b z e l u show ?thesis by blast
qed

section \<open>Properties of the best-checkpoint policy\<close>

lemma simple_accuracy_range:
  "0 \<le> simple_accuracy preds labels \<and> simple_accuracy preds labels \<le> 1"
proof -
  have "length (filter (\<lambda>(p, l). p = l) (zip preds labels)) \<le> length (zip preds labels)"
    by (rule length_filter_le)
  also have "\<dots> \<le> length labels"
    by simp
  finally have "real (length (filter (\<lambda>(p, l). p = l) (zip preds labels))) \<le> real (length labels)"
    by simp
  then show ?thesis
    by (simp add: simple_accuracy_def divide_le_eq_1)
qed

lemma best_policy_Cons:
  "fst (best_policy b (x # xs)) = fst (best_policy (if b < x then x else b) xs)"
  "snd (best_policy b (x # xs)) = (b < x) # snd (best_policy (if b < x then x else b) xs)"
  by (simp_all add: split_def Let_def)

lemma Max_insert_insert:
  fixes b x :: real
  assumes "finite S"
  shows "Max (insert b (insert x S)) = Max (insert (if b < x then x else b) S)"
proof (cases "S = {}")
  case True
  then show ?thesis by (simp add: max_def)
next
  case False
  with assms have "Max (insert b (insert x S)) = max b (max x (Max S))"
    by simp
  also have "\<dots> = max (if b < x then x else b) (Max S)"
    by (simp add: max_def)
  also from False assms have "\<dots> = Max (insert (if b < x then x else b) S)"
    by simp
  finally show ?thesis .
qed

lemma best_policy_fst: "fst (best_policy b xs) = Max (insert b (set xs))"
proof (induction xs arbitrary: b)
  case Nil
  show ?case by simp
next
  case (Cons x xs)
  have "fst (best_policy b (x # xs)) = Max (insert (if b < x then x else b) (set xs))"
    unfolding best_policy_Cons by (rule Cons)
  also have "\<dots> = Max (insert b (insert x (set xs)))"
    by (rule Max_insert_insert [symmetric]) simp
  finally show ?case by simp
qed

lemma best_policy_length: "length (snd (best_policy b xs)) = length xs"
proof (induction xs arbitrary: b)
  case Nil
  show ?case by simp
next
  case (Cons x xs)
  show ?case unfolding best_policy_Cons by (simp add: Cons)
qed

lemma best_policy_nth:
  "i < length xs \<Longrightarrow> snd (best_policy b xs) ! i \<longleftrightarrow> fst (best_policy b (take i xs)) < xs ! i"
proof (induction xs arbitrary: b i)
  case Nil
  then show ?case by simp
next
  case (Cons x xs)
  show ?case
  proof (cases i)
    case 0
    then show ?thesis unfolding best_policy_Cons by simp
  next
    case (Suc j)
    with Cons.prems have j: "j < length xs" by simp
    have "snd (best_policy b (x # xs)) ! i
            = snd (best_policy (if b < x then x else b) xs) ! j"
      unfolding best_policy_Cons Suc by simp
    also have "\<dots> \<longleftrightarrow> fst (best_policy (if b < x then x else b) (take j xs)) < xs ! j"
      by (rule Cons.IH [OF j])
    also have "fst (best_policy (if b < x then x else b) (take j xs))
                 = fst (best_policy b (take i (x # xs)))"
      unfolding Suc take_Suc_Cons best_policy_Cons ..
    finally show ?thesis by (simp add: Suc)
  qed
qed

lemma best_policy_mono:
  assumes "j \<le> i"
  shows "fst (best_policy b (take j xs)) \<le> fst (best_policy b (take i xs))"
proof -
  have "set (take j xs) \<subseteq> set (take i xs)"
    using assms by (rule set_take_subset_set_take)
  then have "insert b (set (take j xs)) \<subseteq> insert b (set (take i xs))"
    by blast
  then have "Max (insert b (set (take j xs))) \<le> Max (insert b (set (take i xs)))"
    by (intro Max_mono) simp_all
  then show ?thesis
    by (simp add: best_policy_fst)
qed

lemma best_policy_saves:
  assumes "i < length xs"
  shows "snd (best_policy b xs) ! i
           \<longleftrightarrow> (\<forall>j \<le> i. fst (best_policy b (take j xs)) < xs ! i)"
proof
  assume "snd (best_policy b xs) ! i"
  with assms have top: "fst (best_policy b (take i xs)) < xs ! i"
    by (simp add: best_policy_nth)
  show "\<forall>j \<le> i. fst (best_policy b (take j xs)) < xs ! i"
  proof (intro allI impI)
    fix j assume "j \<le> i"
    then have "fst (best_policy b (take j xs)) \<le> fst (best_policy b (take i xs))"
      by (rule best_policy_mono)
    with top show "fst (best_policy b (take j xs)) < xs ! i" by simp
  qed
next
  assume "\<forall>j \<le> i. fst (best_policy b (take j xs)) < xs ! i"
  then have "fst (best_policy b (take i xs)) < xs ! i" by simp
  with assms show "snd (best_policy b xs) ! i"
    by (simp add: best_policy_nth)
qed

text \<open>The policy function is what lines 342-344 do to the state at one evaluation.\<close>

lemma update_best_follows_policy:
  assumes "numeric_value (best_acc st) = Some b"
  shows "\<exists>st'. update_best a ext x st = Inr st'
           \<and> numeric_value (best_acc st') = Some (fst (best_policy b [x]))
           \<and> (snd (best_policy b [x]) = [True] \<longrightarrow>
                (\<exists>p. trace st' = trace st @ [Save_checkpoint p]))
           \<and> (snd (best_policy b [x]) = [False] \<longrightarrow> st' = st)"
proof (cases "best_acc st")
  case (PInt i)
  with assms show ?thesis
    by (cases "real_of_int i < x") (auto simp: update_best_def Let_def split: prod.splits)
next
  case (PFloat r)
  with assms show ?thesis
    by (cases "r < x") (auto simp: update_best_def Let_def split: prod.splits)
qed (use assms in simp_all)

lemma best_policy_single:
  "fst (best_policy b [x]) = (if b < x then x else b)" "snd (best_policy b [x]) = [b < x]"
  by (simp_all add: Let_def)

lemma best_policy_exceeds:
  assumes "i < length xs"
  shows "fst (best_policy 0 (take i xs)) < xs ! i \<longleftrightarrow> 0 < xs ! i \<and> (\<forall>j < i. xs ! j < xs ! i)"
proof -
  have "Max (insert 0 (set (take i xs))) < xs ! i
          \<longleftrightarrow> (\<forall>y \<in> insert 0 (set (take i xs)). y < xs ! i)"
    by (rule Max_less_iff) simp_all
  also have "\<dots> \<longleftrightarrow> 0 < xs ! i \<and> (\<forall>y \<in> set (take i xs). y < xs ! i)"
    by simp
  also have "(\<forall>y \<in> set (take i xs). y < xs ! i) \<longleftrightarrow> (\<forall>j < i. xs ! j < xs ! i)"
  proof
    assume h: "\<forall>y \<in> set (take i xs). y < xs ! i"
    show "\<forall>j < i. xs ! j < xs ! i"
    proof (intro allI impI)
      fix j assume j: "j < i"
      with assms have "take i xs ! j = xs ! j" and "j < length (take i xs)"
        by simp_all
      then have "xs ! j \<in> set (take i xs)"
        using nth_mem [of j "take i xs"] by simp
      with h show "xs ! j < xs ! i" by blast
    qed
  next
    assume h: "\<forall>j < i. xs ! j < xs ! i"
    show "\<forall>y \<in> set (take i xs). y < xs ! i"
    proof
      fix y assume "y \<in> set (take i xs)"
      then obtain j where "j < length (take i xs)" and "take i xs ! j = y"
        by (auto simp: in_set_conv_nth)
      with assms have "j < i" and "xs ! j = y" by simp_all
      with h show "y < xs ! i" by blast
    qed
  qed
  finally show ?thesis
    by (simp add: best_policy_fst)
qed

text \<open>
  The iterated \<open>update_best\<close> follows the policy function: same flags, same retained
  best, and one \<open>Save_checkpoint\<close> event in the trace for every flag that is set.
\<close>

lemma observe_policy:
  assumes "numeric_value (best_acc st) = Some b"
  shows "\<exists>st' tr. observe a ext xs st = Inr (snd (best_policy b xs), st')
           \<and> numeric_value (best_acc st') = Some (fst (best_policy b xs))
           \<and> trace st' = trace st @ tr
           \<and> length tr = length (filter (\<lambda>s. s) (snd (best_policy b xs)))
           \<and> (\<forall>e \<in> set tr. \<exists>p. e = Save_checkpoint p)"
  using assms
proof (induction xs arbitrary: b st)
  case Nil
  then show ?case by simp
next
  case (Cons x xs)
  let ?b1 = "if b < x then x else b"
  from update_best_follows_policy [OF Cons.prems, of a ext x] obtain st1 where st1:
    "update_best a ext x st = Inr st1"
    "numeric_value (best_acc st1) = Some ?b1"
    "b < x \<longrightarrow> (\<exists>p. trace st1 = trace st @ [Save_checkpoint p])"
    "\<not> b < x \<longrightarrow> st1 = st"
    unfolding best_policy_single by auto
  obtain tr1 where tr1: "trace st1 = trace st @ tr1" "length tr1 = (if b < x then 1 else 0)"
    "\<forall>e \<in> set tr1. \<exists>p. e = Save_checkpoint p"
  proof (cases "b < x")
    case True
    with st1(3) obtain p where "trace st1 = trace st @ [Save_checkpoint p]" by blast
    with True that [of "[Save_checkpoint p]"] show ?thesis by simp
  next
    case False
    with st1(4) that [of "[]"] show ?thesis by simp
  qed
  then have flag: "(trace st1 \<noteq> trace st) = (b < x)"
    by (cases "b < x") auto
  from Cons.IH [OF st1(2)] obtain st' tr2 where r:
    "observe a ext xs st1 = Inr (snd (best_policy ?b1 xs), st')"
    "numeric_value (best_acc st') = Some (fst (best_policy ?b1 xs))"
    "trace st' = trace st1 @ tr2"
    "length tr2 = length (filter (\<lambda>s. s) (snd (best_policy ?b1 xs)))"
    "\<forall>e \<in> set tr2. \<exists>p. e = Save_checkpoint p"
    by blast
  have o: "observe a ext (x # xs) st = Inr (snd (best_policy b (x # xs)), st')"
    unfolding best_policy_Cons by (simp add: st1(1) r(1) flag)
  have n: "numeric_value (best_acc st') = Some (fst (best_policy b (x # xs)))"
    unfolding best_policy_Cons by (rule r(2))
  have t: "trace st' = trace st @ (tr1 @ tr2)"
    using tr1(1) r(3) by simp
  have l: "length (tr1 @ tr2) = length (filter (\<lambda>s. s) (snd (best_policy b (x # xs))))"
    unfolding best_policy_Cons using tr1(2) r(4) by simp
  have e: "\<forall>e \<in> set (tr1 @ tr2). \<exists>p. e = Save_checkpoint p"
    using tr1(3) r(5) by auto
  from o n t l e show ?case by blast
qed

lemma retained_policy:
  assumes "numeric_value (best_acc st) = Some b"
  shows "retained a ext xs st = Some (fst (best_policy b xs))"
proof -
  from observe_policy [OF assms, of a ext xs] obtain st' where
    "observe a ext xs st = Inr (snd (best_policy b xs), st')"
    "numeric_value (best_acc st') = Some (fst (best_policy b xs))"
    by blast
  then show ?thesis by (simp add: retained_def)
qed

text \<open>
  C5. Let the accuracies \<open>a\<^sub>1 \<dots> a\<^sub>n\<close> of successive evaluations (non-empty; each a
  fraction of right predictions and so not negative) go through lines 342-344 one
  after the other, from the initial best 0. No call raises; the best accuracy retained
  at the end is the maximum of the sequence; the call for \<open>a\<^sub>i\<close> writes a checkpoint
  exactly when \<open>a\<^sub>i\<close> is strictly greater than every best retained before it, which is
  to say greater than 0 and than every earlier accuracy, and so never on a tie; and the
  trace holds one save event for each such call and nothing else.
\<close>

theorem best_checkpoint_policy:
  assumes "xs \<noteq> []" and "\<forall>x \<in> set xs. 0 \<le> x" and "numeric_value (best_acc st) = Some 0"
  shows "retained a ext xs st = Some (Max (set xs))
       \<and> (\<exists>saved st' tr. observe a ext xs st = Inr (saved, st')
              \<and> numeric_value (best_acc st') = Some (Max (set xs))
              \<and> length saved = length xs
              \<and> (\<forall>i < length xs.
                     saved ! i
                       \<longleftrightarrow> (\<forall>j \<le> i. \<exists>b. retained a ext (take j xs) st = Some b \<and> b < xs ! i))
              \<and> (\<forall>i < length xs. saved ! i \<longleftrightarrow> 0 < xs ! i \<and> (\<forall>j < i. xs ! j < xs ! i))
              \<and> (\<forall>i < length xs. \<forall>j < i. xs ! i = xs ! j \<longrightarrow> \<not> saved ! i)
              \<and> trace st' = trace st @ tr
              \<and> length tr = length (filter (\<lambda>s. s) saved)
              \<and> (\<forall>e \<in> set tr. \<exists>p. e = Save_checkpoint p))"
proof -
  let ?saved = "snd (best_policy 0 xs)"
  from assms(1,2) obtain y where y: "y \<in> set xs" and y0: "0 \<le> y"
    by (cases xs) auto
  from y have "y \<le> Max (set xs)"
    by simp
  with y0 have "0 \<le> Max (set xs)"
    by linarith
  then have "Max (insert 0 (set xs)) = Max (set xs)"
    using assms(1) by (simp add: max_def)
  then have m: "fst (best_policy 0 xs) = Max (set xs)"
    by (simp add: best_policy_fst)
  from observe_policy [OF assms(3), of a ext xs] obtain st' tr where o:
    "observe a ext xs st = Inr (?saved, st')"
    "numeric_value (best_acc st') = Some (fst (best_policy 0 xs))"
    "trace st' = trace st @ tr"
    "length tr = length (filter (\<lambda>s. s) ?saved)"
    "\<forall>e \<in> set tr. \<exists>p. e = Save_checkpoint p"
    by blast
  have r: "retained a ext zs st = Some (fst (best_policy 0 zs))" for zs
    using assms(3) by (rule retained_policy)
  have s1: "\<forall>i < length xs.
      ?saved ! i \<longleftrightarrow> (\<forall>j \<le> i. \<exists>b. retained a ext (take j xs) st = Some b \<and> b < xs ! i)"
    by (simp add: best_policy_saves r)
  have s2: "\<forall>i < length xs. ?saved ! i \<longleftrightarrow> 0 < xs ! i \<and> (\<forall>j < i. xs ! j < xs ! i)"
  proof (intro allI impI)
    fix i assume i: "i < length xs"
    then have "?saved ! i \<longleftrightarrow> fst (best_policy 0 (take i xs)) < xs ! i"
      by (rule best_policy_nth)
    also have "\<dots> \<longleftrightarrow> 0 < xs ! i \<and> (\<forall>j < i. xs ! j < xs ! i)"
      using i by (rule best_policy_exceeds)
    finally show "?saved ! i \<longleftrightarrow> 0 < xs ! i \<and> (\<forall>j < i. xs ! j < xs ! i)" .
  qed
  have s3: "\<forall>i < length xs. \<forall>j < i. xs ! i = xs ! j \<longrightarrow> \<not> ?saved ! i"
  proof (intro allI impI)
    fix i j assume i: "i < length xs" and j: "j < i" and eq: "xs ! i = xs ! j"
    from s2 i have "?saved ! i \<longleftrightarrow> 0 < xs ! i \<and> (\<forall>j < i. xs ! j < xs ! i)" by blast
    moreover from j eq have "\<not> (\<forall>j < i. xs ! j < xs ! i)" by auto
    ultimately show "\<not> ?saved ! i" by blast
  qed
  have l: "length ?saved = length xs"
    by (rule best_policy_length)
  have "retained a ext xs st = Some (Max (set xs))"
    unfolding r m ..
  moreover have "\<exists>saved st' tr. observe a ext xs st = Inr (saved, st')
              \<and> numeric_value (best_acc st') = Some (Max (set xs))
              \<and> length saved = length xs
              \<and> (\<forall>i < length xs.
                     saved ! i
                       \<longleftrightarrow> (\<forall>j \<le> i. \<exists>b. retained a ext (take j xs) st = Some b \<and> b < xs ! i))
              \<and> (\<forall>i < length xs. saved ! i \<longleftrightarrow> 0 < xs ! i \<and> (\<forall>j < i. xs ! j < xs ! i))
              \<and> (\<forall>i < length xs. \<forall>j < i. xs ! i = xs ! j \<longrightarrow> \<not> saved ! i)
              \<and> trace st' = trace st @ tr
              \<and> length tr = length (filter (\<lambda>s. s) saved)
              \<and> (\<forall>e \<in> set tr. \<exists>p. e = Save_checkpoint p)"
    apply (rule exI [of _ ?saved])
    apply (rule exI [of _ st'])
    apply (rule exI [of _ tr])
    apply (intro conjI)
            apply (rule o(1))
           apply (simp add: o(2) m)
          apply (rule l)
         apply (rule s1)
        apply (rule s2)
       apply (rule s3)
      apply (rule o(3))
     apply (rule o(4))
    apply (rule o(5))
    done
  ultimately show ?thesis by (rule conjI)
qed

theorem best_checkpoint_policy_witness:
  "[0.5, 0.25, 0.5, 0.75] \<noteq> ([] :: real list)
   \<and> list_all (\<lambda>x. 0 \<le> x) [0.5, 0.25, 0.5, 0.75 :: real]
   \<and> numeric_value (best_acc ex_state) = Some 0
   \<and> retained ex_args ex_ext [0.5, 0.25, 0.5, 0.75] ex_state = Some 0.75
   \<and> map_sum fst fst (observe ex_args ex_ext [0.5, 0.25, 0.5, 0.75] ex_state)
       = Inr [True, False, False, True]"
proof -
  have n: "[0.5, 0.25, 0.5, 0.75] \<noteq> ([] :: real list)"
    and p: "\<forall>x \<in> set [0.5, 0.25, 0.5, 0.75 :: real]. 0 \<le> x"
    and q: "list_all (\<lambda>x. 0 \<le> x) [0.5, 0.25, 0.5, 0.75 :: real]"
    and z: "numeric_value (best_acc ex_state) = Some 0"
    by (simp_all add: ex_state_def)
  have mx: "Max (set [0.5, 0.25, 0.5, 0.75 :: real]) = 0.75"
    by simp
  from best_checkpoint_policy [OF n p z, of ex_args ex_ext]
  have r: "retained ex_args ex_ext [0.5, 0.25, 0.5, 0.75] ex_state = Some 0.75"
    unfolding mx by (rule conjunct1)
  have o: "map_sum fst fst (observe ex_args ex_ext [0.5, 0.25, 0.5, 0.75] ex_state)
       = Inr [True, False, False, True]"
    by (simp add: update_best_def save_model_complete_def ex_state_def Let_def split_def)
  from n q z r o show ?thesis by (intro conjI)
qed

section \<open>Properties of the mAP evaluation pass\<close>

lemma one_hot_rows:
  assumes "one_hot y n = Inr rows"
  shows "\<forall>row \<in> set rows. length row = n"
  using assms by (auto simp: one_hot_def split: if_splits)

lemma one_hot_out_of_range:
  assumes "c \<in> set y" and "int n \<le> c"
  shows "one_hot y n = Inl RuntimeError"
  using assms by (auto simp: one_hot_def)

lemma one_hot_in_range:
  assumes "\<forall>c \<in> set y. 0 \<le> c \<and> c < int n"
  shows "\<exists>rows. one_hot y n = Inr rows \<and> length rows = length y"
  using assms by (auto simp: one_hot_def)

lemma one_hot_error: "one_hot y n = Inl e \<Longrightarrow> e = RuntimeError"
  by (auto simp: one_hot_def split: if_splits)

lemma mAp_targets_error: "mAp_targets test_loader = Inl e \<Longrightarrow> e = RuntimeError"
  by (induction test_loader arbitrary: e)
     (auto split: sum.splits dest: one_hot_error)

lemma mAp_targets_rows:
  "mAp_targets test_loader = Inr ts \<Longrightarrow> \<forall>t \<in> set ts. \<forall>row \<in> set t. length row = 40"
proof (induction test_loader arbitrary: ts)
  case Nil
  then show ?case by simp
next
  case (Cons batch rest)
  from Cons.prems obtain one_hot_y ts' where
    oh: "one_hot (map snd batch) 40 = Inr one_hot_y" and
    r: "mAp_targets rest = Inr ts'" and ts: "ts = one_hot_y # ts'"
    by (auto split: sum.splits)
  from one_hot_rows [OF oh] Cons.IH [OF r] ts show ?case by simp
qed

lemma mAp_targets_label_too_large:
  assumes "batch \<in> set test_loader" and "(x, y) \<in> set batch" and "40 \<le> y"
  shows "mAp_targets test_loader = Inl RuntimeError"
  using assms
proof (induction test_loader)
  case Nil
  then show ?case by simp
next
  case (Cons b rest)
  show ?case
  proof (cases "one_hot (map snd b) 40")
    case (Inl e)
    with one_hot_error [OF Inl] show ?thesis by simp
  next
    case (Inr one_hot_y)
    have "batch \<noteq> b"
    proof
      assume "batch = b"
      with Cons.prems have "y \<in> set (map snd b)" by force
      with Cons.prems have "one_hot (map snd b) 40 = Inl RuntimeError"
        by (intro one_hot_out_of_range [of y]) simp_all
      with Inr show False by simp
    qed
    with Cons have "mAp_targets rest = Inl RuntimeError" by simp
    with Inr show ?thesis by simp
  qed
qed

lemma mAp_batches_targets: "mAp_batches confusion_k test_loader = mAp_targets test_loader"
  by (induction test_loader) (simp_all split: sum.splits)

lemma mAp_batches_rows:
  "mAp_batches n test_loader = Inr ts \<Longrightarrow> \<forall>t \<in> set ts. \<forall>row \<in> set t. length row = 40"
proof (induction test_loader arbitrary: ts)
  case Nil
  then show ?case by simp
next
  case (Cons batch rest)
  from Cons.prems obtain one_hot_y ts' where
    oh: "one_hot (map snd batch) 40 = Inr one_hot_y" and
    r: "mAp_batches n rest = Inr ts'" and ts: "ts = one_hot_y # ts'"
    by (auto split: sum.splits if_splits)
  from one_hot_rows [OF oh] Cons.IH [OF r] ts show ?case by simp
qed

lemma mAp_batches_raises:
  "mAp_targets test_loader = Inl e \<Longrightarrow> \<exists>e'. mAp_batches n test_loader = Inl e'"
proof (induction test_loader arbitrary: e)
  case Nil
  then show ?case by simp
next
  case (Cons batch rest)
  show ?case
  proof (cases "one_hot (map snd batch) 40")
    case (Inl e1)
    then show ?thesis by simp
  next
    case (Inr one_hot_y)
    with Cons.prems obtain e2 where "mAp_targets rest = Inl e2"
      by (auto split: sum.splits)
    from Cons.IH [OF this] obtain e' where "mAp_batches n rest = Inl e'" ..
    with Inr show ?thesis by auto
  qed
qed


lemma mAp_raises:
  assumes "mAp_targets test_loader = Inl e"
  shows "\<exists>e' s. mAp a ext test_loader gs st = Inl (e', s)"
proof -
  from mAp_batches_raises [OF assms, of "num_outputs ext"] obtain e' where
    "mAp_batches (num_outputs ext) test_loader = Inl e'" ..
  then show ?thesis
    by (auto simp: mAp_def Let_def split: option.splits sum.splits)
qed

lemma mAp_passes:
  assumes "mAp_targets test_loader = Inr ts" and "gs \<noteq> - 1"
    and "num_outputs ext = confusion_k" and "test_loader \<noteq> []"
  shows "mAp a ext test_loader gs st
           = Inr (st\<lparr>trace := trace st @ [MAP_evaluation gs, Add_scalar ''test/mAp'' gs]\<rparr>)"
  using assms by (simp add: mAp_def mAp_batches_targets)


lemma conf_matrix_shape:
  "length conf_matrix_reset = 40" "\<forall>row \<in> set conf_matrix_reset. length row = 40"
  by (simp_all add: conf_matrix_reset_def confusion_k_def)

text \<open>
  C10. Whatever the dataset option, the mAP pass encodes the labels one-hot with 40
  classes and resets a 40 x 40 confusion matrix, while \<^verbatim>\<open>setup\<close> gives the model 10
  classes for cifar10, 40 for stanford40 and 100 otherwise; an evaluation set holding a
  label of 40 or more makes the one-hot encoding raise, and with it the pass.
\<close>

theorem mAp_forty_classes:
  "mAp (a\<lparr>dataset := d\<rparr>) ext test_loader gs st = mAp a ext test_loader gs st
   \<and> num_classes (a\<lparr>dataset := ''cifar10''\<rparr>) = 10
   \<and> num_classes (a\<lparr>dataset := ''stanford40''\<rparr>) = 40
   \<and> (d \<noteq> ''cifar10'' \<and> d \<noteq> ''stanford40'' \<longrightarrow> num_classes (a\<lparr>dataset := d\<rparr>) = 100)
   \<and> (\<forall>ts. mAp_targets test_loader = Inr ts \<longrightarrow>
          (\<forall>t \<in> set ts. \<forall>row \<in> set t. length row = 40))
   \<and> (\<forall>ts. mAp_batches (num_outputs ext) test_loader = Inr ts \<longrightarrow>
          (\<forall>t \<in> set ts. \<forall>row \<in> set t. length row = 40))
   \<and> length conf_matrix_reset = 40
   \<and> (\<forall>row \<in> set conf_matrix_reset. length row = 40)
   \<and> ((\<exists>batch \<in> set test_loader. \<exists>(x, y) \<in> set batch. 40 \<le> y) \<longrightarrow>
        mAp_targets test_loader = Inl RuntimeError
        \<and> (\<exists>e s. mAp a ext test_loader gs st = Inl (e, s)))"
proof -
  have i: "mAp (a\<lparr>dataset := d\<rparr>) ext test_loader gs st = mAp a ext test_loader gs st"
    by (simp add: mAp_def)
  have n: "num_classes (a\<lparr>dataset := ''cifar10''\<rparr>) = 10"
    "num_classes (a\<lparr>dataset := ''stanford40''\<rparr>) = 40"
    "d \<noteq> ''cifar10'' \<and> d \<noteq> ''stanford40'' \<longrightarrow> num_classes (a\<lparr>dataset := d\<rparr>) = 100"
    by (simp_all add: num_classes_def)
  have r: "\<forall>ts. mAp_targets test_loader = Inr ts \<longrightarrow>
          (\<forall>t \<in> set ts. \<forall>row \<in> set t. length row = 40)"
    using mAp_targets_rows by blast
  have r': "\<forall>ts. mAp_batches (num_outputs ext) test_loader = Inr ts \<longrightarrow>
          (\<forall>t \<in> set ts. \<forall>row \<in> set t. length row = 40)"
    using mAp_batches_rows by blast
  have f: "(\<exists>batch \<in> set test_loader. \<exists>(x, y) \<in> set batch. 40 \<le> y) \<longrightarrow>
        mAp_targets test_loader = Inl RuntimeError
        \<and> (\<exists>e s. mAp a ext test_loader gs st = Inl (e, s))"
  proof
    assume "\<exists>batch \<in> set test_loader. \<exists>(x, y) \<in> set batch. 40 \<le> y"
    then obtain batch x y where "batch \<in> set test_loader" "(x, y) \<in> set batch" "40 \<le> y"
      by auto
    then have t: "mAp_targets test_loader = Inl RuntimeError"
      by (rule mAp_targets_label_too_large)
    from t mAp_raises [OF t] show "mAp_targets test_loader = Inl RuntimeError
        \<and> (\<exists>e s. mAp a ext test_loader gs st = Inl (e, s))"
      by blast
  qed
  from i n r r' f conf_matrix_shape show ?thesis by blast
qed

theorem mAp_forty_classes_witness:
  "num_classes (ex_args\<lparr>dataset := ''cifar100''\<rparr>) = 100
   \<and> mAp_targets [[(0 :: nat, 99)]] = Inl RuntimeError
   \<and> mAp (ex_args\<lparr>dataset := ''cifar100''\<rparr>) ex_ext [[(0 :: nat, 99)]] 2 ex_state
       = Inl (RuntimeError, ex_state)
   \<and> map (map length) (projr (mAp_targets ex_test_loader)) = [[40, 40]]"
proof -
  note t = mAp_forty_classes [where a = ex_args and d = "''cifar100''"
      and test_loader = "[[(0 :: nat, 99)]]" and gs = 2 and st = ex_state and ext = ex_ext]
  have h: "\<exists>batch \<in> set [[(0 :: nat, 99 :: int)]]. \<exists>(x, y) \<in> set batch. 40 \<le> y"
    by simp
  have d: "''cifar100'' \<noteq> ''cifar10'' \<and> ''cifar100'' \<noteq> ''stanford40''"
    by simp
  from t d have c: "num_classes (ex_args\<lparr>dataset := ''cifar100''\<rparr>) = 100"
    by blast
  from t h have m: "mAp_targets [[(0 :: nat, 99)]] = Inl RuntimeError"
    by blast
  have e: "mAp (ex_args\<lparr>dataset := ''cifar100''\<rparr>) ex_ext [[(0 :: nat, 99)]] 2 ex_state
       = Inl (RuntimeError, ex_state)"
    by (simp add: mAp_def one_hot_def)
  have "\<exists>ts. mAp_targets ex_test_loader = Inr ts"
    by (simp add: ex_test_loader_def one_hot_def)
  then obtain ts where ts: "mAp_targets ex_test_loader = Inr ts" ..
  with mAp_forty_classes [where test_loader = ex_test_loader and a = ex_args
      and d = "''cifar100''" and gs = 2 and st = ex_state and ext = ex_ext]
  have "\<forall>t \<in> set ts. \<forall>row \<in> set t. length row = 40"
    by blast
  moreover from ts have "map length ts = [2]"
    by (auto simp: ex_test_loader_def one_hot_def split: if_splits)
  ultimately have "map (map length) ts = [[40, 40]]"
    by (cases ts) (auto simp: length_Suc_conv numeral_2_eq_2)
  with ts have s: "map (map length) (projr (mAp_targets ex_test_loader)) = [[40, 40]]"
    by simp
  from c m e s show ?thesis by blast
qed

section \<open>Properties of resuming\<close>

lemma map_of_map_values:
  "map_of (map (\<lambda>(k, v). (k, f k v)) xs) k = map_option (f k) (map_of xs k)"
  by (induction xs) auto

lemma load_state_dict_ok:
  assumes "set (map fst sd) = set (map fst cur)"
  shows "\<exists>m. load_state_dict cur sd = Inr m \<and> map_of m = map_of sd"
proof -
  let ?m = "map (\<lambda>(k, v). (k, case map_of sd k of Some w \<Rightarrow> w | None \<Rightarrow> v)) cur"
  have "map_of ?m k = map_of sd k" for k
  proof (cases "map_of cur k")
    case None
    then have "k \<notin> set (map fst cur)"
      by (simp add: map_of_eq_None_iff)
    with assms have "k \<notin> set (map fst sd)" by simp
    then have "map_of sd k = None"
      by (simp add: map_of_eq_None_iff)
    with None show ?thesis
      by (simp add: map_of_map_values)
  next
    case (Some v)
    then have "k \<in> set (map fst cur)"
      by (metis map_of_eq_None_iff option.distinct(1) set_map)
    with assms have "k \<in> set (map fst sd)" by simp
    then obtain w where "map_of sd k = Some w"
      by (metis map_of_eq_None_iff not_Some_eq set_map)
    with Some show ?thesis
      by (simp add: map_of_map_values)
  qed
  then have "map_of ?m = map_of sd" by (rule ext)
  with assms show ?thesis
    by (simp add: load_state_dict_def)
qed

lemma save_fields:
  "snd (save_model_complete a fmt sd opt acc step)
     = [(''step'', PInt step), (''model_state_dict'', PStateDict sd),
        (''optimizer_state_dict'', POptim opt), (''best_accuracy'', stored_accuracy acc)]"
  by (simp add: save_model_complete_def split_def Let_def)

lemma resume_none:
  "input_dir a = None \<Longrightarrow> resume a st = Inr (st\<lparr>global_step := 0, best_acc := PInt 0\<rparr>)"
  by (simp add: resume_def)

lemma resume_complete:
  assumes "input_dir a = Some p" and "p \<noteq> []"
    and "files st p = Some (Complete (snd (save_model_complete a' fmt sd opt acc step)))"
    and "set (map fst sd) = set (map fst (model st))"
  shows "\<exists>m. map_of m = map_of sd
           \<and> resume a st
               = Inr (st\<lparr>global_step := 0, best_acc := stored_accuracy acc,
                         trace := trace st @ [Load_checkpoint p], model := m\<rparr>)"
proof -
  from load_state_dict_ok [OF assms(4)] obtain m where
    m: "load_state_dict (model st) sd = Inr m" "map_of m = map_of sd"
    by blast
  from assms(1-3) m(1) have "resume a st
      = Inr (st\<lparr>global_step := 0, best_acc := stored_accuracy acc,
                trace := trace st @ [Load_checkpoint p], model := m\<rparr>)"
    by (simp add: resume_def load_model_field_def save_fields Let_def)
  with m(2) show ?thesis by blast
qed

lemma resume_weights:
  assumes "input_dir a = Some p" and "p \<noteq> []"
    and "files st p = Some (Weights sd)"
    and "''model_state_dict'' \<notin> set (map fst sd)"
    and "set (map fst sd) = set (map fst (model st))"
  shows "\<exists>m. map_of m = map_of sd
           \<and> resume a st
               = Inr (st\<lparr>global_step := 0, best_acc := PInt 0,
                         trace := trace st @ [Load_checkpoint p], model := m\<rparr>)"
proof -
  from load_state_dict_ok [OF assms(5)] obtain m where
    m: "load_state_dict (model st) sd = Inr m" "map_of m = map_of sd"
    by blast
  from assms(1-4) m(1) have "resume a st
      = Inr (st\<lparr>global_step := 0, best_acc := PInt 0,
                trace := trace st @ [Load_checkpoint p], model := m\<rparr>)"
    by (simp add: resume_def Let_def)
  with m(2) show ?thesis by blast
qed

lemma resume_step_and_optimizer:
  assumes "resume a st = Inr st'"
  shows "global_step st' = 0 \<and> optimizer st' = optimizer st"
  using assms
  by (auto simp: resume_def Let_def
           split: option.splits if_splits sum.splits checkpoint.splits)

text \<open>
  C2 as the claim states it fails: the checkpoint below has an optimizer-state field
  (value 5) and step 100, and the run resumed from it keeps its fresh optimizer state 0
  and starts at step 0.
\<close>

theorem resume_restores_counterexample:
  "map_of (snd (save_model_complete ex_args ex_format [(''head.weight'', 7)] (5 :: nat)
                  (Some (1 / 2)) 100)) ''optimizer_state_dict''
     = Some (POptim 5)
   \<and> map_of (snd (save_model_complete ex_args ex_format [(''head.weight'', 7)] (5 :: nat)
                    (Some (1 / 2)) 100)) ''step''
     = Some (PInt 100)
   \<and> resume ex_resume_args ex_resume_state
     = Inr (ex_resume_state\<lparr>model := [(''head.weight'', 7)], best_acc := PFloat (1 / 2),
                             trace := [Load_checkpoint ''ckpt.pth'']\<rparr>)
   \<and> optimizer (state_of (resume ex_resume_args ex_resume_state)) = 0
   \<and> global_step (state_of (resume ex_resume_args ex_resume_state)) = 0"
proof -
  have r: "resume ex_resume_args ex_resume_state
     = Inr (ex_resume_state\<lparr>model := [(''head.weight'', 7)], best_acc := PFloat (1 / 2),
                             trace := [Load_checkpoint ''ckpt.pth'']\<rparr>)"
    by (simp add: resume_def ex_resume_args_def ex_resume_state_def ex_saved_def ex_args_def
        ex_state_def save_fields load_model_field_def load_state_dict_def Let_def)
  have f: "map_of (snd (save_model_complete ex_args ex_format [(''head.weight'', 7)] (5 :: nat)
                  (Some (1 / 2)) 100)) ''optimizer_state_dict''
     = Some (POptim 5)"
    "map_of (snd (save_model_complete ex_args ex_format [(''head.weight'', 7)] (5 :: nat)
                    (Some (1 / 2)) 100)) ''step''
     = Some (PInt 100)"
    by (simp_all add: save_fields)
  have s: "optimizer (state_of (resume ex_resume_args ex_resume_state)) = 0"
    "global_step (state_of (resume ex_resume_args ex_resume_state)) = 0"
    unfolding r by (simp_all add: ex_resume_state_def ex_state_def)
  from r f s show ?thesis by blast
qed

text \<open>
  C2, amended. A resume from a checkpoint whose parameter names fit the model restores
  the weights. If the checkpoint was written by \<^verbatim>\<open>save_model_complete\<close> (it has a
  \<^verbatim>\<open>model_state_dict\<close> field), the best accuracy is taken from its \<^verbatim>\<open>best_accuracy\<close>
  field; from a bare state dictionary the best accuracy stays 0. In every successful
  resume the step counter is 0 and the optimizer state is the one the run started with:
  neither is read from the checkpoint.
\<close>

theorem resume_restores:
  "(input_dir a = Some p \<and> p \<noteq> [] \<and> set (map fst sd) = set (map fst (model st))
      \<and> files st p = Some (Complete (snd (save_model_complete a' fmt sd opt acc step)))
    \<longrightarrow> (\<exists>st'. resume a st = Inr st' \<and> map_of (model st') = map_of sd
                 \<and> best_acc st' = stored_accuracy acc
                 \<and> global_step st' = 0 \<and> optimizer st' = optimizer st))
   \<and> (input_dir a = Some p \<and> p \<noteq> [] \<and> set (map fst sd) = set (map fst (model st))
      \<and> files st p = Some (Weights sd) \<and> ''model_state_dict'' \<notin> set (map fst sd)
    \<longrightarrow> (\<exists>st'. resume a st = Inr st' \<and> map_of (model st') = map_of sd
                 \<and> best_acc st' = PInt 0
                 \<and> global_step st' = 0 \<and> optimizer st' = optimizer st))
   \<and> (\<forall>st'. resume a st = Inr st' \<longrightarrow> global_step st' = 0 \<and> optimizer st' = optimizer st)"
proof -
  have c: "input_dir a = Some p \<and> p \<noteq> [] \<and> set (map fst sd) = set (map fst (model st))
      \<and> files st p = Some (Complete (snd (save_model_complete a' fmt sd opt acc step)))
    \<longrightarrow> (\<exists>st'. resume a st = Inr st' \<and> map_of (model st') = map_of sd
                 \<and> best_acc st' = stored_accuracy acc
                 \<and> global_step st' = 0 \<and> optimizer st' = optimizer st)"
  proof
    assume h: "input_dir a = Some p \<and> p \<noteq> [] \<and> set (map fst sd) = set (map fst (model st))
      \<and> files st p = Some (Complete (snd (save_model_complete a' fmt sd opt acc step)))"
    then obtain m where "map_of m = map_of sd"
      "resume a st = Inr (st\<lparr>global_step := 0, best_acc := stored_accuracy acc,
                         trace := trace st @ [Load_checkpoint p], model := m\<rparr>)"
      using resume_complete [of a p st a' fmt sd opt acc step] by blast
    then show "\<exists>st'. resume a st = Inr st' \<and> map_of (model st') = map_of sd
                 \<and> best_acc st' = stored_accuracy acc
                 \<and> global_step st' = 0 \<and> optimizer st' = optimizer st"
      by simp
  qed
  have w: "input_dir a = Some p \<and> p \<noteq> [] \<and> set (map fst sd) = set (map fst (model st))
      \<and> files st p = Some (Weights sd) \<and> ''model_state_dict'' \<notin> set (map fst sd)
    \<longrightarrow> (\<exists>st'. resume a st = Inr st' \<and> map_of (model st') = map_of sd
                 \<and> best_acc st' = PInt 0
                 \<and> global_step st' = 0 \<and> optimizer st' = optimizer st)"
  proof
    assume h: "input_dir a = Some p \<and> p \<noteq> [] \<and> set (map fst sd) = set (map fst (model st))
      \<and> files st p = Some (Weights sd) \<and> ''model_state_dict'' \<notin> set (map fst sd)"
    then obtain m where "map_of m = map_of sd"
      "resume a st = Inr (st\<lparr>global_step := 0, best_acc := PInt 0,
                         trace := trace st @ [Load_checkpoint p], model := m\<rparr>)"
      using resume_weights [of a p st sd] by blast
    then show "\<exists>st'. resume a st = Inr st' \<and> map_of (model st') = map_of sd
                 \<and> best_acc st' = PInt 0
                 \<and> global_step st' = 0 \<and> optimizer st' = optimizer st"
      by simp
  qed
  have n: "\<forall>st'. resume a st = Inr st' \<longrightarrow> global_step st' = 0 \<and> optimizer st' = optimizer st"
    using resume_step_and_optimizer by blast
  from c w n show ?thesis by blast
qed

theorem resume_restores_witness:
  "input_dir ex_resume_args = Some ''ckpt.pth''
   \<and> ''ckpt.pth'' \<noteq> []
   \<and> set (map fst [(''head.weight'', 7 :: nat)]) = set (map fst (model ex_resume_state))
   \<and> files ex_resume_state ''ckpt.pth''
       = Some (Complete (snd (save_model_complete ex_args ex_format [(''head.weight'', 7)] 5
                                (Some (1 / 2)) 100)))
   \<and> \<not> isl (resume ex_resume_args ex_resume_state)
   \<and> map_of (model (state_of (resume ex_resume_args ex_resume_state)))
       = map_of [(''head.weight'', 7)]
   \<and> best_acc (state_of (resume ex_resume_args ex_resume_state)) = PFloat (1 / 2)
   \<and> global_step (state_of (resume ex_resume_args ex_resume_state)) = 0
   \<and> optimizer (state_of (resume ex_resume_args ex_resume_state)) = 0"
proof -
  have h: "input_dir ex_resume_args = Some ''ckpt.pth''"
    "''ckpt.pth'' \<noteq> []"
    "set (map fst [(''head.weight'', 7 :: nat)]) = set (map fst (model ex_resume_state))"
    "files ex_resume_state ''ckpt.pth''
       = Some (Complete (snd (save_model_complete ex_args ex_format [(''head.weight'', 7)] 5
                                (Some (1 / 2)) 100)))"
    by (simp_all add: ex_resume_args_def ex_resume_state_def ex_state_def ex_saved_def)
  with resume_restores [where a = ex_resume_args and p = "''ckpt.pth''"
      and sd = "[(''head.weight'', 7)]" and st = ex_resume_state and a' = ex_args
      and fmt = ex_format and opt = 5 and acc = "Some (1 / 2)" and step = 100]
  obtain st' where st': "resume ex_resume_args ex_resume_state = Inr st'"
    "map_of (model st') = map_of [(''head.weight'', 7)]"
    "best_acc st' = stored_accuracy (Some (1 / 2))"
    "global_step st' = 0" "optimizer st' = optimizer ex_resume_state"
    by blast
  then have "\<not> isl (resume ex_resume_args ex_resume_state)"
    "map_of (model (state_of (resume ex_resume_args ex_resume_state)))
       = map_of [(''head.weight'', 7)]"
    "best_acc (state_of (resume ex_resume_args ex_resume_state)) = PFloat (1 / 2)"
    "global_step (state_of (resume ex_resume_args ex_resume_state)) = 0"
    "optimizer (state_of (resume ex_resume_args ex_resume_state)) = 0"
    by (simp_all add: ex_resume_state_def ex_state_def)
  with h show ?thesis by blast
qed

section \<open>Properties of one micro-batch\<close>

lemma optimizer_steps_append [simp]:
  "optimizer_steps (tr @ tr') = optimizer_steps tr + optimizer_steps tr'"
  by (simp add: optimizer_steps_def)

lemma micro_batches_append [simp]:
  "micro_batches (tr @ tr') = micro_batches tr + micro_batches tr'"
  by (simp add: micro_batches_def)

lemma optimizer_steps_simps [simp]:
  "optimizer_steps [] = 0"
  "optimizer_steps (e # tr) = (if is_optimizer_step e then 1 else 0) + optimizer_steps tr"
  by (simp_all add: optimizer_steps_def)

lemma micro_batches_simps [simp]:
  "micro_batches [] = 0"
  "micro_batches (e # tr) = (if e = Backward then 1 else 0) + micro_batches tr"
  by (simp_all add: micro_batches_def)

lemma same_progress_refl: "same_progress st st"
  by (simp add: same_progress_def)

lemma same_progress_trans:
  "same_progress st s \<Longrightarrow> same_progress s s' \<Longrightarrow> same_progress st s'"
  by (simp add: same_progress_def)

lemma valid_progress:
  "valid ext test_loader st = Inl (e, s) \<Longrightarrow> same_progress st s"
  "valid ext test_loader st = Inr (x, s) \<Longrightarrow> same_progress st s"
  by (auto simp: valid_def Let_def same_progress_def split: if_splits)

lemma valid_best:
  "valid ext test_loader st = Inl (e, s) \<Longrightarrow> best_acc s = best_acc st"
  "valid ext test_loader st = Inr (x, s) \<Longrightarrow> best_acc s = best_acc st"
  by (auto simp: valid_def Let_def split: if_splits)

lemma mAp_progress:
  "mAp a ext test_loader gs st = Inl (e, s) \<Longrightarrow> same_progress st s"
  "mAp a ext test_loader gs st = Inr s \<Longrightarrow> same_progress st s"
  by (auto simp: mAp_def Let_def same_progress_def split: if_splits option.splits sum.splits)


lemma update_best_progress:
  "update_best a ext x st = Inl (e, s) \<Longrightarrow> same_progress st s"
  "update_best a ext x st = Inr s \<Longrightarrow> same_progress st s"
  by (auto simp: update_best_def Let_def same_progress_def split: if_splits sum.splits prod.splits)

lemma evaluate_progress: "same_progress st (state_of (evaluate a ext test_loader st))"
proof (cases "valid ext test_loader st")
  case (Inl es)
  then show ?thesis
    by (cases es) (simp add: evaluate_def valid_progress)
next
  case (Inr xs)
  obtain x s1 where xs: "xs = (x, s1)" by (cases xs)
  with Inr have p1: "same_progress st s1" by (simp add: valid_progress)
  show ?thesis
  proof (cases "mAp a ext test_loader (global_step s1) s1")
    case (Inl es)
    obtain e s2 where "es = (e, s2)" by (cases es)
    with Inl Inr xs p1 show ?thesis
      by (auto simp: evaluate_def intro: same_progress_trans mAp_progress)
  next
    case mr: (Inr s2)
    then have p2: "same_progress st s2"
      using p1 by (blast intro: same_progress_trans mAp_progress)
    show ?thesis
    proof (cases "update_best a ext x s2")
      case (Inl es)
      obtain e s3 where "es = (e, s3)" by (cases es)
      with Inl mr Inr xs p2 show ?thesis
        by (auto simp: evaluate_def intro: same_progress_trans update_best_progress)
    next
      case ur: (Inr s3)
      with mr Inr xs p2 show ?thesis
        by (auto simp: evaluate_def intro: same_progress_trans update_best_progress)
    qed
  qed
qed

lemma window_update_fields [simp]:
  "global_step (window_update ext st) = global_step st + 1"
  "pending (window_update ext st) = 0"
  "trace (window_update ext st) = trace st @ [Optimizer_step (pending st)]"
  "best_acc (window_update ext st) = best_acc st"
  by (simp_all add: window_update_def split_def Let_def)

lemma log_scalars_fields [simp]:
  "global_step (log_scalars a st) = global_step st"
  "pending (log_scalars a st) = pending st"
  "best_acc (log_scalars a st) = best_acc st"
  "optimizer_steps (trace (log_scalars a st)) = optimizer_steps (trace st)"
  "micro_batches (trace (log_scalars a st)) = micro_batches (trace st)"
  by (simp_all add: log_scalars_def)

lemma log_scalars_trace: "\<exists>tr. trace (log_scalars a st) = trace st @ tr"
  by (simp add: log_scalars_def)

text \<open>A micro-batch that does not complete a window only accumulates its gradient.\<close>

lemma micro_batch_incomplete:
  assumes "gradient_accumulation_steps a \<noteq> 0" and "\<not> window_complete a step"
  shows "micro_batch a ext test_loader step batch st
           = Inr (False, st\<lparr>grads := backward ext (model st) batch (grads st),
                            pending := Suc (pending st),
                            trace := trace st @ [Backward]\<rparr>)"
  using assms by (simp add: micro_batch_def)

text \<open>
  A micro-batch that completes a window: whatever happens afterwards (evaluation, a
  raise, the break), the state it ends in is one optimizer step further.
\<close>

lemma micro_batch_complete:
  assumes "gradient_accumulation_steps a \<noteq> 0" and "window_complete a step"
  shows "global_step (final (micro_batch a ext test_loader step batch st)) = global_step st + 1"
    and "pending (final (micro_batch a ext test_loader step batch st)) = 0"
    and "optimizer_steps (trace (final (micro_batch a ext test_loader step batch st)))
           = optimizer_steps (trace st) + 1"
    and "micro_batches (trace (final (micro_batch a ext test_loader step batch st)))
           = micro_batches (trace st) + 1"
proof -
  let ?st1 = "st\<lparr>grads := backward ext (model st) batch (grads st),
                  pending := Suc (pending st), trace := trace st @ [Backward]\<rparr>"
  let ?st2 = "log_scalars a (window_update ext ?st1)"
  let ?r = "micro_batch a ext test_loader step batch st"
  have base: "global_step ?st2 = global_step st + 1" "pending ?st2 = 0"
    "optimizer_steps (trace ?st2) = optimizer_steps (trace st) + 1"
    "micro_batches (trace ?st2) = micro_batches (trace st) + 1"
    by simp_all
  have "same_progress ?st2 (final ?r)"
  proof (cases "eval_every a = 0")
    case True
    with assms show ?thesis
      by (simp add: micro_batch_def Let_def same_progress_refl)
  next
    case False
    show ?thesis
    proof (cases "global_step ?st2 mod eval_every a = 0 \<and> is_primary a")
      case no: False
      with False assms have "final ?r = ?st2"
        by (auto simp: micro_batch_def Let_def)
      then show ?thesis by (simp add: same_progress_refl)
    next
      case yes: True
      have p: "same_progress ?st2 (state_of (evaluate a ext test_loader ?st2))"
        by (rule evaluate_progress)
      show ?thesis
      proof (cases "evaluate a ext test_loader ?st2")
        case (Inl es)
        obtain e s where "es = (e, s)" by (cases es)
        with Inl p yes False assms show ?thesis
          by (simp add: micro_batch_def Let_def)
      next
        case (Inr s)
        with p yes False assms show ?thesis
          by (simp add: micro_batch_def Let_def)
      qed
    qed
  qed
  with base show
    "global_step (final ?r) = global_step st + 1"
    "pending (final ?r) = 0"
    "optimizer_steps (trace (final ?r)) = optimizer_steps (trace st) + 1"
    "micro_batches (trace (final ?r)) = micro_batches (trace st) + 1"
    by (simp_all add: same_progress_def)
qed

section \<open>Properties of one pass over the training loader\<close>

lemma window_complete_nat:
  assumes "1 \<le> gradient_accumulation_steps a"
  shows "window_complete a step \<longleftrightarrow> Suc step mod nat (gradient_accumulation_steps a) = 0"
proof -
  from assms have k: "gradient_accumulation_steps a = int (nat (gradient_accumulation_steps a))"
    by simp
  have "(int step + 1) mod int (nat (gradient_accumulation_steps a))
          = int (Suc step mod nat (gradient_accumulation_steps a))"
    by (simp add: zmod_int add.commute)
  with k show ?thesis
    by (simp add: window_complete_def)
qed

lemma Suc_div_incomplete: "Suc s mod k \<noteq> 0 \<Longrightarrow> Suc s div k = s div k"
  by (simp add: div_Suc)

lemma Suc_div_complete: "Suc s mod k = 0 \<Longrightarrow> Suc s div k = Suc (s div k)"
  by (simp add: div_Suc)

text \<open>
  The pass from index \<open>s\<close> over the batches \<open>bs\<close>, wherever it stops (end of the list,
  break, or raise): \<open>b\<close> micro-batches were processed, and the step counter and the
  number of optimizer steps grew by the number of multiples of \<open>k\<close> in \<open>(s, s + b]\<close>.
  It stops early only right after a completed window.
\<close>

lemma run_batches_counts:
  assumes "1 \<le> gradient_accumulation_steps a"
  shows "\<exists>b. micro_batches (trace (final (run_batches a ext test_loader s bs st)))
               = micro_batches (trace st) + b
           \<and> b \<le> length bs
           \<and> global_step (final (run_batches a ext test_loader s bs st))
               + int (s div nat (gradient_accumulation_steps a))
               = global_step st + int ((s + b) div nat (gradient_accumulation_steps a))
           \<and> optimizer_steps (trace (final (run_batches a ext test_loader s bs st)))
               + s div nat (gradient_accumulation_steps a)
               = optimizer_steps (trace st) + (s + b) div nat (gradient_accumulation_steps a)
           \<and> (b < length bs \<longrightarrow> 0 < b \<and> (s + b) mod nat (gradient_accumulation_steps a) = 0)"
proof (induction bs arbitrary: s st)
  case Nil
  show ?case by (rule exI [of _ 0]) simp
next
  case (Cons batch rest)
  let ?k = "nat (gradient_accumulation_steps a)"
  let ?r1 = "micro_batch a ext test_loader s batch st"
  from assms have k0: "gradient_accumulation_steps a \<noteq> 0" by simp
  show ?case
  proof (cases "window_complete a s")
    case False
    let ?st1 = "st\<lparr>grads := backward ext (model st) batch (grads st),
                    pending := Suc (pending st), trace := trace st @ [Backward]\<rparr>"
    have r1: "?r1 = Inr (False, ?st1)"
      using k0 False by (rule micro_batch_incomplete)
    from False have "Suc s mod ?k \<noteq> 0"
      unfolding window_complete_nat [OF assms] .
    then have d: "Suc s div ?k = s div ?k"
      by (rule Suc_div_incomplete)
    from Cons [of "Suc s" ?st1] obtain b where b0:
      "micro_batches (trace (final (run_batches a ext test_loader (Suc s) rest ?st1)))
         = micro_batches (trace ?st1) + b
       \<and> b \<le> length rest
       \<and> global_step (final (run_batches a ext test_loader (Suc s) rest ?st1)) + int (Suc s div ?k)
         = global_step ?st1 + int ((Suc s + b) div ?k)
       \<and> optimizer_steps (trace (final (run_batches a ext test_loader (Suc s) rest ?st1)))
         + Suc s div ?k = optimizer_steps (trace ?st1) + (Suc s + b) div ?k
       \<and> (b < length rest \<longrightarrow> 0 < b \<and> (Suc s + b) mod ?k = 0)" ..
    note b = b0 [THEN conjunct1] b0 [THEN conjunct2, THEN conjunct1]
      b0 [THEN conjunct2, THEN conjunct2, THEN conjunct1]
      b0 [THEN conjunct2, THEN conjunct2, THEN conjunct2, THEN conjunct1]
      b0 [THEN conjunct2, THEN conjunct2, THEN conjunct2, THEN conjunct2]
    have run: "run_batches a ext test_loader s (batch # rest) st
                 = run_batches a ext test_loader (Suc s) rest ?st1"
      by (simp add: r1)
    have st1: "micro_batches (trace ?st1) = micro_batches (trace st) + 1"
      "global_step ?st1 = global_step st"
      "optimizer_steps (trace ?st1) = optimizer_steps (trace st)"
      by simp_all
    have e: "Suc s + b = s + Suc b" by simp
    have g1: "micro_batches (trace (final (run_batches a ext test_loader (Suc s) rest ?st1)))
                = micro_batches (trace st) + Suc b"
      using b(1) st1(1) by linarith
    have g2: "Suc b \<le> length (batch # rest)"
      using b(2) by simp
    have g3: "global_step (final (run_batches a ext test_loader (Suc s) rest ?st1))
                + int (s div ?k) = global_step st + int ((s + Suc b) div ?k)"
      using b(3) unfolding d e st1(2) .
    have g4: "optimizer_steps (trace (final (run_batches a ext test_loader (Suc s) rest ?st1)))
                + s div ?k = optimizer_steps (trace st) + (s + Suc b) div ?k"
      using b(4) unfolding d e st1(3) .
    have g5: "Suc b < length (batch # rest) \<longrightarrow> 0 < Suc b \<and> (s + Suc b) mod ?k = 0"
      using b(5) unfolding e by simp
    show ?thesis
      unfolding run by (rule exI [of _ "Suc b"]) (intro conjI g1 g2 g3 g4 g5)
  next
    case True
    from True have m: "Suc s mod ?k = 0"
      unfolding window_complete_nat [OF assms] .
    then have d: "Suc s div ?k = Suc (s div ?k)"
      by (rule Suc_div_complete)
    note c = micro_batch_complete [OF k0 True, of ext test_loader batch st]
    have stop: ?thesis if "final (run_batches a ext test_loader s (batch # rest) st) = final ?r1"
    proof -
      have h1: "micro_batches (trace (final ?r1)) = micro_batches (trace st) + Suc 0"
        using c(4) by simp
      have h2: "Suc 0 \<le> length (batch # rest)" by simp
      have h3: "global_step (final ?r1) + int (s div ?k)
                  = global_step st + int ((s + Suc 0) div ?k)"
        using c(1) d by simp
      have h4: "optimizer_steps (trace (final ?r1)) + s div ?k
                  = optimizer_steps (trace st) + (s + Suc 0) div ?k"
        using c(3) d by simp
      have h5: "Suc 0 < length (batch # rest) \<longrightarrow> 0 < Suc 0 \<and> (s + Suc 0) mod ?k = 0"
        using m by simp
      show ?thesis
        unfolding that by (rule exI [of _ "Suc 0"]) (intro conjI h1 h2 h3 h4 h5)
    qed
    show ?thesis
    proof (cases ?r1)
      case (Inl es)
      then show ?thesis by (intro stop) simp
    next
      case (Inr bs1)
      obtain brk s1 where bs1: "bs1 = (brk, s1)" by (cases bs1)
      show ?thesis
      proof (cases brk)
        case True
        with Inr bs1 show ?thesis by (intro stop) simp
      next
        case False
        with Inr bs1 have run: "run_batches a ext test_loader s (batch # rest) st
                 = run_batches a ext test_loader (Suc s) rest s1"
          and f: "final ?r1 = s1"
          by simp_all
        from Cons [of "Suc s" s1] obtain b where b0:
      "micro_batches (trace (final (run_batches a ext test_loader (Suc s) rest s1)))
             = micro_batches (trace s1) + b
       \<and> b \<le> length rest
       \<and> global_step (final (run_batches a ext test_loader (Suc s) rest s1)) + int (Suc s div ?k)
             = global_step s1 + int ((Suc s + b) div ?k)
       \<and> optimizer_steps (trace (final (run_batches a ext test_loader (Suc s) rest s1)))
             + Suc s div ?k = optimizer_steps (trace s1) + (Suc s + b) div ?k
       \<and> (b < length rest \<longrightarrow> 0 < b \<and> (Suc s + b) mod ?k = 0)" ..
    note b = b0 [THEN conjunct1] b0 [THEN conjunct2, THEN conjunct1]
      b0 [THEN conjunct2, THEN conjunct2, THEN conjunct1]
      b0 [THEN conjunct2, THEN conjunct2, THEN conjunct2, THEN conjunct1]
      b0 [THEN conjunct2, THEN conjunct2, THEN conjunct2, THEN conjunct2]
        have e: "Suc s + b = s + Suc b" by simp
        have s1: "micro_batches (trace s1) = micro_batches (trace st) + 1"
          "global_step s1 = global_step st + 1"
          "optimizer_steps (trace s1) = optimizer_steps (trace st) + 1"
          using c f by simp_all
        have g1: "micro_batches (trace (final (run_batches a ext test_loader (Suc s) rest s1)))
                    = micro_batches (trace st) + Suc b"
          using b(1) s1(1) by linarith
        have g2: "Suc b \<le> length (batch # rest)"
          using b(2) by simp
        have g3: "global_step (final (run_batches a ext test_loader (Suc s) rest s1))
                    + int (s div ?k) = global_step st + int ((s + Suc b) div ?k)"
          using b(3) unfolding d e s1(2) by simp
        have g4: "optimizer_steps (trace (final (run_batches a ext test_loader (Suc s) rest s1)))
                    + s div ?k = optimizer_steps (trace st) + (s + Suc b) div ?k"
          using b(4) unfolding d e s1(3) by simp
        have g5: "Suc b < length (batch # rest) \<longrightarrow> 0 < Suc b \<and> (s + Suc b) mod ?k = 0"
          using b(5) unfolding e by simp
        show ?thesis
          unfolding run by (rule exI [of _ "Suc b"]) (intro conjI g1 g2 g3 g4 g5)
      qed
    qed
  qed
qed

text \<open>
  What evaluation leaves alone: the weights, the optimizer state and the gradients
  (the weights unless \<^verbatim>\<open>mAp\<close> is called with step \<open>-1\<close> and reloads them).
\<close>

lemma valid_model:
  "valid ext test_loader st = Inl (e, s)
     \<Longrightarrow> model s = model st \<and> optimizer s = optimizer st \<and> grads s = grads st"
  "valid ext test_loader st = Inr (x, s)
     \<Longrightarrow> model s = model st \<and> optimizer s = optimizer st \<and> grads s = grads st"
  by (auto simp: valid_def Let_def split: if_splits)

lemma mAp_model:
  "gs \<noteq> - 1 \<Longrightarrow> mAp a ext test_loader gs st = Inl (e, s)
     \<Longrightarrow> model s = model st \<and> optimizer s = optimizer st \<and> grads s = grads st"
  "gs \<noteq> - 1 \<Longrightarrow> mAp a ext test_loader gs st = Inr s
     \<Longrightarrow> model s = model st \<and> optimizer s = optimizer st \<and> grads s = grads st"
  by (auto simp: mAp_def Let_def split: if_splits sum.splits)

lemma update_best_model:
  "update_best a ext x st = Inl (e, s)
     \<Longrightarrow> model s = model st \<and> optimizer s = optimizer st \<and> grads s = grads st"
  "update_best a ext x st = Inr s
     \<Longrightarrow> model s = model st \<and> optimizer s = optimizer st \<and> grads s = grads st"
  by (auto simp: update_best_def Let_def split: if_splits sum.splits prod.splits)

lemma evaluate_model:
  assumes "global_step st \<noteq> - 1"
  shows "model (state_of (evaluate a ext test_loader st)) = model st
       \<and> optimizer (state_of (evaluate a ext test_loader st)) = optimizer st
       \<and> grads (state_of (evaluate a ext test_loader st)) = grads st"
proof (cases "valid ext test_loader st")
  case (Inl es)
  obtain e s where "es = (e, s)" by (cases es)
  with Inl valid_model(1) [of ext test_loader st e s] show ?thesis
    by (simp add: evaluate_def)
next
  case (Inr xs)
  obtain x s1 where xs: "xs = (x, s1)" by (cases xs)
  with Inr have v: "valid ext test_loader st = Inr (x, s1)" by simp
  note m1 = valid_model(2) [OF v]
  from valid_progress(2) [OF v] assms have g: "global_step s1 \<noteq> - 1"
    by (simp add: same_progress_def)
  show ?thesis
  proof (cases "mAp a ext test_loader (global_step s1) s1")
    case (Inl es)
    obtain e s2 where es: "es = (e, s2)" by (cases es)
    with Inl mAp_model(1) [OF g, of a ext test_loader s1 e s2] m1 v show ?thesis
      by (simp add: evaluate_def)
  next
    case mr: (Inr s2)
    from mAp_model(2) [OF g mr] m1 have m2:
      "model s2 = model st \<and> optimizer s2 = optimizer st \<and> grads s2 = grads st"
      by simp
    show ?thesis
    proof (cases "update_best a ext x s2")
      case (Inl es)
      obtain e s3 where es: "es = (e, s3)" by (cases es)
      with Inl update_best_model(1) [of a ext x s2 e s3] m2 mr v show ?thesis
        by (simp add: evaluate_def)
    next
      case ur: (Inr s3)
      with update_best_model(2) [OF ur] m2 mr v show ?thesis
        by (simp add: evaluate_def)
    qed
  qed
qed

text \<open>
  The optimizer update of a completed window (lines 318-325): the weights and the
  optimizer state are what the optimizer makes of the gradients accumulated up to and
  including this micro-batch, and the gradients are zeroed. That is also the state in
  which the micro-batch ends, whatever the evaluation after it does.
\<close>

lemma micro_batch_complete_model:
  assumes "gradient_accumulation_steps a \<noteq> 0" and "window_complete a step"
    and "0 \<le> global_step st"
  shows "model (final (micro_batch a ext test_loader step batch st))
           = fst (optimizer_step ext (model st) (optimizer st)
                    (backward ext (model st) batch (grads st)))
       \<and> optimizer (final (micro_batch a ext test_loader step batch st))
           = snd (optimizer_step ext (model st) (optimizer st)
                    (backward ext (model st) batch (grads st)))
       \<and> grads (final (micro_batch a ext test_loader step batch st)) = zero_grad ext"
proof -
  let ?st1 = "st\<lparr>grads := backward ext (model st) batch (grads st),
                  pending := Suc (pending st), trace := trace st @ [Backward]\<rparr>"
  let ?st2 = "log_scalars a (window_update ext ?st1)"
  let ?r = "micro_batch a ext test_loader step batch st"
  have base: "model ?st2 = fst (optimizer_step ext (model st) (optimizer st)
                                  (backward ext (model st) batch (grads st)))"
    "optimizer ?st2 = snd (optimizer_step ext (model st) (optimizer st)
                             (backward ext (model st) batch (grads st)))"
    "grads ?st2 = zero_grad ext"
    by (simp_all add: log_scalars_def window_update_def split_def Let_def)
  from assms(3) have g2: "global_step ?st2 \<noteq> - 1" by simp
  have "model (final ?r) = model ?st2 \<and> optimizer (final ?r) = optimizer ?st2
          \<and> grads (final ?r) = grads ?st2"
  proof (cases "eval_every a = 0")
    case True
    with assms show ?thesis
      by (simp add: micro_batch_def Let_def)
  next
    case False
    show ?thesis
    proof (cases "global_step ?st2 mod eval_every a = 0 \<and> is_primary a")
      case no: False
      with False assms have "final ?r = ?st2"
        by (auto simp: micro_batch_def Let_def)
      then show ?thesis by simp
    next
      case yes: True
      note p = evaluate_model [OF g2, of a ext test_loader]
      show ?thesis
      proof (cases "evaluate a ext test_loader ?st2")
        case (Inl es)
        obtain e s where "es = (e, s)" by (cases es)
        with Inl p yes False assms show ?thesis
          by (simp add: micro_batch_def Let_def)
      next
        case (Inr s)
        with p yes False assms show ?thesis
          by (simp add: micro_batch_def Let_def)
      qed
    qed
  qed
  with base show ?thesis by simp
qed

text \<open>
  C1. With an accumulation factor \<open>K \<ge> 1\<close>, in one pass over the loader: the window
  condition holds at the \<open>K\<close>-th micro-batch and at none of the \<open>K - 1\<close> before it;
  after \<open>K\<close> micro-batches the step counter has grown by exactly 1 with exactly one
  optimizer step, after \<open>K - 1\<close> neither has changed; a micro-batch that does not
  complete a window leaves the step counter alone; and wherever the pass stops, the
  step counter and the number of optimizer steps have grown by the number of
  micro-batches processed divided by \<open>K\<close>. The optimizer step is the real one: a
  micro-batch that completes a window ends with the weights and optimizer state that
  the optimizer makes of the accumulated gradients, and with zeroed gradients; one that
  does not only adds its gradient.
\<close>

theorem one_step_per_window:
  assumes "1 \<le> gradient_accumulation_steps a"
  shows "window_complete a (nat (gradient_accumulation_steps a) - 1)
       \<and> (\<forall>i < nat (gradient_accumulation_steps a) - 1. \<not> window_complete a i)
       \<and> (length bs = nat (gradient_accumulation_steps a) \<longrightarrow>
            global_step (final (run_batches a ext test_loader 0 bs st)) = global_step st + 1
            \<and> optimizer_steps (trace (final (run_batches a ext test_loader 0 bs st)))
                = optimizer_steps (trace st) + 1)
       \<and> (length bs = nat (gradient_accumulation_steps a) - 1 \<longrightarrow>
            global_step (final (run_batches a ext test_loader 0 bs st)) = global_step st
            \<and> optimizer_steps (trace (final (run_batches a ext test_loader 0 bs st)))
                = optimizer_steps (trace st))
       \<and> (\<not> window_complete a step \<longrightarrow>
            global_step (final (micro_batch a ext test_loader step batch st)) = global_step st
            \<and> optimizer_steps (trace (final (micro_batch a ext test_loader step batch st)))
                = optimizer_steps (trace st))
       \<and> (\<exists>b \<le> length bs.
            micro_batches (trace (final (run_batches a ext test_loader 0 bs st)))
              = micro_batches (trace st) + b
            \<and> global_step (final (run_batches a ext test_loader 0 bs st))
              = global_step st + int (b div nat (gradient_accumulation_steps a))
            \<and> optimizer_steps (trace (final (run_batches a ext test_loader 0 bs st)))
              = optimizer_steps (trace st) + b div nat (gradient_accumulation_steps a))
       \<and> (window_complete a step \<and> 0 \<le> global_step st \<longrightarrow>
            model (final (micro_batch a ext test_loader step batch st))
              = fst (optimizer_step ext (model st) (optimizer st)
                       (backward ext (model st) batch (grads st)))
            \<and> optimizer (final (micro_batch a ext test_loader step batch st))
              = snd (optimizer_step ext (model st) (optimizer st)
                       (backward ext (model st) batch (grads st)))
            \<and> grads (final (micro_batch a ext test_loader step batch st)) = zero_grad ext)
       \<and> (\<not> window_complete a step \<longrightarrow>
            model (final (micro_batch a ext test_loader step batch st)) = model st
            \<and> optimizer (final (micro_batch a ext test_loader step batch st)) = optimizer st
            \<and> grads (final (micro_batch a ext test_loader step batch st))
              = backward ext (model st) batch (grads st))"
proof -
  let ?k = "nat (gradient_accumulation_steps a)"
  let ?f = "final (run_batches a ext test_loader 0 bs st)"
  from assms have k1: "1 \<le> ?k" and k0: "gradient_accumulation_steps a \<noteq> 0"
    by simp_all
  from k1 have "Suc (?k - 1) mod ?k = 0" by simp
  then have w1: "window_complete a (?k - 1)"
    unfolding window_complete_nat [OF assms] .
  have w2: "\<forall>i < ?k - 1. \<not> window_complete a i"
  proof (intro allI impI)
    fix i assume "i < ?k - 1"
    then have "Suc i mod ?k \<noteq> 0" by simp
    then show "\<not> window_complete a i"
      unfolding window_complete_nat [OF assms] .
  qed
  from run_batches_counts [OF assms, of ext test_loader 0 bs st] obtain b where b0:
    "micro_batches (trace ?f) = micro_batches (trace st) + b
     \<and> b \<le> length bs
     \<and> global_step ?f + int (0 div ?k) = global_step st + int ((0 + b) div ?k)
     \<and> optimizer_steps (trace ?f) + 0 div ?k = optimizer_steps (trace st) + (0 + b) div ?k
     \<and> (b < length bs \<longrightarrow> 0 < b \<and> (0 + b) mod ?k = 0)" ..
  then have b: "micro_batches (trace ?f) = micro_batches (trace st) + b"
    "b \<le> length bs"
    "global_step ?f = global_step st + int (b div ?k)"
    "optimizer_steps (trace ?f) = optimizer_steps (trace st) + b div ?k"
    "b < length bs \<longrightarrow> 0 < b \<and> b mod ?k = 0"
    by simp_all
  have full: "global_step ?f = global_step st + 1
      \<and> optimizer_steps (trace ?f) = optimizer_steps (trace st) + 1"
    if len: "length bs = ?k"
  proof -
    have "b = ?k"
    proof (rule ccontr)
      assume "b \<noteq> ?k"
      with b(2) len have lt: "b < ?k" by simp
      with b(5) len have "0 < b" and "b mod ?k = 0" by simp_all
      with lt show False by simp
    qed
    with b(3,4) k1 show ?thesis by simp
  qed
  have short: "global_step ?f = global_step st
      \<and> optimizer_steps (trace ?f) = optimizer_steps (trace st)"
    if len: "length bs = ?k - 1"
  proof -
    from b(2) len k1 have "b < ?k" by simp
    then have "b div ?k = 0" by simp
    with b(3,4) show ?thesis by simp
  qed
  have idle: "global_step (final (micro_batch a ext test_loader step batch st)) = global_step st
      \<and> optimizer_steps (trace (final (micro_batch a ext test_loader step batch st)))
          = optimizer_steps (trace st)"
    if "\<not> window_complete a step"
    unfolding micro_batch_incomplete [OF k0 that] by simp
  have count: "\<exists>b \<le> length bs.
      micro_batches (trace ?f) = micro_batches (trace st) + b
      \<and> global_step ?f = global_step st + int (b div ?k)
      \<and> optimizer_steps (trace ?f) = optimizer_steps (trace st) + b div ?k"
    using b(1-4) by blast
  have upd: "window_complete a step \<and> 0 \<le> global_step st \<longrightarrow>
      model (final (micro_batch a ext test_loader step batch st))
        = fst (optimizer_step ext (model st) (optimizer st)
                 (backward ext (model st) batch (grads st)))
      \<and> optimizer (final (micro_batch a ext test_loader step batch st))
        = snd (optimizer_step ext (model st) (optimizer st)
                 (backward ext (model st) batch (grads st)))
      \<and> grads (final (micro_batch a ext test_loader step batch st)) = zero_grad ext"
    using micro_batch_complete_model [OF k0, of step st ext test_loader batch] by blast
  have acc: "\<not> window_complete a step \<longrightarrow>
      model (final (micro_batch a ext test_loader step batch st)) = model st
      \<and> optimizer (final (micro_batch a ext test_loader step batch st)) = optimizer st
      \<and> grads (final (micro_batch a ext test_loader step batch st))
        = backward ext (model st) batch (grads st)"
  proof
    assume n: "\<not> window_complete a step"
    show "model (final (micro_batch a ext test_loader step batch st)) = model st
      \<and> optimizer (final (micro_batch a ext test_loader step batch st)) = optimizer st
      \<and> grads (final (micro_batch a ext test_loader step batch st))
        = backward ext (model st) batch (grads st)"
      unfolding micro_batch_incomplete [OF k0 n] by simp
  qed
  from w1 w2 full short idle count have first: "window_complete a (?k - 1)
       \<and> (\<forall>i < ?k - 1. \<not> window_complete a i)
       \<and> (length bs = ?k \<longrightarrow>
            global_step ?f = global_step st + 1
            \<and> optimizer_steps (trace ?f) = optimizer_steps (trace st) + 1)
       \<and> (length bs = ?k - 1 \<longrightarrow>
            global_step ?f = global_step st
            \<and> optimizer_steps (trace ?f) = optimizer_steps (trace st))
       \<and> (\<not> window_complete a step \<longrightarrow>
            global_step (final (micro_batch a ext test_loader step batch st)) = global_step st
            \<and> optimizer_steps (trace (final (micro_batch a ext test_loader step batch st)))
                = optimizer_steps (trace st))
       \<and> (\<exists>b \<le> length bs.
            micro_batches (trace ?f) = micro_batches (trace st) + b
            \<and> global_step ?f = global_step st + int (b div ?k)
            \<and> optimizer_steps (trace ?f) = optimizer_steps (trace st) + b div ?k)"
    by blast
  from first upd acc show ?thesis by simp
qed

theorem one_step_per_window_witness:
  "1 \<le> gradient_accumulation_steps ex_args
   \<and> window_complete ex_args 1
   \<and> \<not> window_complete ex_args 0
   \<and> global_step (final (run_batches ex_args ex_ext ex_test_loader 0 [[(0, 0)], [(1, 1)]] ex_state)) = 1
   \<and> optimizer_steps
        (trace (final (run_batches ex_args ex_ext ex_test_loader 0 [[(0, 0)], [(1, 1)]] ex_state))) = 1
   \<and> global_step (final (run_batches ex_args ex_ext ex_test_loader 0 [[(0, 0)]] ex_state)) = 0
   \<and> 0 \<le> global_step ex_state
   \<and> model (final (micro_batch ex_args ex_ext ex_test_loader 1 [(1, 1)] ex_state))
       = [(''head.weight'', 1)]
   \<and> optimizer (final (micro_batch ex_args ex_ext ex_test_loader 1 [(1, 1)] ex_state)) = 1
   \<and> grads (final (micro_batch ex_args ex_ext ex_test_loader 1 [(1, 1)] ex_state)) = 0
   \<and> model (final (micro_batch ex_args ex_ext ex_test_loader 0 [(0, 0)] ex_state))
       = [(''head.weight'', 0)]
   \<and> optimizer (final (micro_batch ex_args ex_ext ex_test_loader 0 [(0, 0)] ex_state)) = 0
   \<and> grads (final (micro_batch ex_args ex_ext ex_test_loader 0 [(0, 0)] ex_state)) = 1"
proof -
  have k: "1 \<le> gradient_accumulation_steps ex_args"
    and n: "nat (gradient_accumulation_steps ex_args) = 2"
    by (simp_all add: ex_args_def)
  have s: "global_step ex_state = 0" "optimizer_steps (trace ex_state) = 0"
    by (simp_all add: ex_state_def)
  note t2 = one_step_per_window [OF k, where bs = "[[(0, 0)], [(1, 1)]]" and ext = ex_ext
      and test_loader = ex_test_loader and st = ex_state and step = 0 and batch = "[]"]
  note t1 = one_step_per_window [OF k, where bs = "[[(0, 0)]]" and ext = ex_ext
      and test_loader = ex_test_loader and st = ex_state and step = 0 and batch = "[]"]
  from t2 have w: "window_complete ex_args 1" "\<not> window_complete ex_args 0"
    unfolding n by simp_all
  from t2 have f: "global_step (final (run_batches ex_args ex_ext ex_test_loader 0
                       [[(0, 0)], [(1, 1)]] ex_state)) = 1"
    "optimizer_steps (trace (final (run_batches ex_args ex_ext ex_test_loader 0
                       [[(0, 0)], [(1, 1)]] ex_state))) = 1"
    unfolding n s by simp_all
  from t1 have h: "global_step (final (run_batches ex_args ex_ext ex_test_loader 0
                       [[(0, 0)]] ex_state)) = 0"
    unfolding n s by simp
  note t3 = one_step_per_window [OF k, where bs = "[]" and ext = ex_ext
      and test_loader = ex_test_loader and st = ex_state and step = 1 and batch = "[(1, 1)]"]
  note t4 = one_step_per_window [OF k, where bs = "[]" and ext = ex_ext
      and test_loader = ex_test_loader and st = ex_state and step = 0 and batch = "[(0, 0)]"]
  have g: "0 \<le> global_step ex_state" by (simp add: s)
  have v: "fst (optimizer_step ex_ext (model ex_state) (optimizer ex_state)
                  (backward ex_ext (model ex_state) [(1, 1)] (grads ex_state)))
             = [(''head.weight'', 1)]"
    "snd (optimizer_step ex_ext (model ex_state) (optimizer ex_state)
            (backward ex_ext (model ex_state) [(1, 1)] (grads ex_state))) = 1"
    "zero_grad ex_ext = 0"
    "model ex_state = [(''head.weight'', 0)]" "optimizer ex_state = 0"
    "backward ex_ext (model ex_state) [(0, 0)] (grads ex_state) = 1"
    by (simp_all add: ex_ext_def ex_state_def)
  from t3 w(1) g have u0:
    "model (final (micro_batch ex_args ex_ext ex_test_loader 1 [(1, 1)] ex_state))
       = fst (optimizer_step ex_ext (model ex_state) (optimizer ex_state)
                (backward ex_ext (model ex_state) [(1, 1)] (grads ex_state)))"
    "optimizer (final (micro_batch ex_args ex_ext ex_test_loader 1 [(1, 1)] ex_state))
       = snd (optimizer_step ex_ext (model ex_state) (optimizer ex_state)
                (backward ex_ext (model ex_state) [(1, 1)] (grads ex_state)))"
    "grads (final (micro_batch ex_args ex_ext ex_test_loader 1 [(1, 1)] ex_state))
       = zero_grad ex_ext"
    by blast+
  have u:
    "model (final (micro_batch ex_args ex_ext ex_test_loader 1 [(1, 1)] ex_state))
       = [(''head.weight'', 1)]"
    "optimizer (final (micro_batch ex_args ex_ext ex_test_loader 1 [(1, 1)] ex_state)) = 1"
    "grads (final (micro_batch ex_args ex_ext ex_test_loader 1 [(1, 1)] ex_state)) = 0"
    unfolding u0 by (rule v)+
  from t4 w(2) have i0:
    "model (final (micro_batch ex_args ex_ext ex_test_loader 0 [(0, 0)] ex_state))
       = model ex_state"
    "optimizer (final (micro_batch ex_args ex_ext ex_test_loader 0 [(0, 0)] ex_state))
       = optimizer ex_state"
    "grads (final (micro_batch ex_args ex_ext ex_test_loader 0 [(0, 0)] ex_state))
       = backward ex_ext (model ex_state) [(0, 0)] (grads ex_state)"
    by blast+
  have i:
    "model (final (micro_batch ex_args ex_ext ex_test_loader 0 [(0, 0)] ex_state))
       = [(''head.weight'', 0)]"
    "optimizer (final (micro_batch ex_args ex_ext ex_test_loader 0 [(0, 0)] ex_state)) = 0"
    "grads (final (micro_batch ex_args ex_ext ex_test_loader 0 [(0, 0)] ex_state)) = 1"
    unfolding i0 by (rule v)+
  from k w f h g u i show ?thesis by blast
qed

section \<open>Accumulation across the epoch boundary\<close>

lemma valid_trace:
  "valid ext test_loader st = Inl (e, s) \<Longrightarrow> \<exists>tr. trace s = trace st @ tr"
  "valid ext test_loader st = Inr (x, s) \<Longrightarrow> \<exists>tr. trace s = trace st @ tr"
  by (auto simp: valid_def Let_def split: if_splits)

lemma mAp_trace:
  "mAp a ext test_loader gs st = Inl (e, s) \<Longrightarrow> \<exists>tr. trace s = trace st @ tr"
  "mAp a ext test_loader gs st = Inr s \<Longrightarrow> \<exists>tr. trace s = trace st @ tr"
  by (auto simp: mAp_def Let_def split: if_splits option.splits sum.splits)

lemma update_best_trace:
  "update_best a ext x st = Inl (e, s) \<Longrightarrow> \<exists>tr. trace s = trace st @ tr"
  "update_best a ext x st = Inr s \<Longrightarrow> \<exists>tr. trace s = trace st @ tr"
  by (auto simp: update_best_def Let_def split: if_splits sum.splits prod.splits)

lemma evaluate_trace: "\<exists>tr. trace (state_of (evaluate a ext test_loader st)) = trace st @ tr"
proof (cases "valid ext test_loader st")
  case (Inl es)
  obtain e s where "es = (e, s)" by (cases es)
  with Inl valid_trace(1) [of ext test_loader st e s] show ?thesis
    by (simp add: evaluate_def)
next
  case (Inr xs)
  obtain x s1 where xs: "xs = (x, s1)" by (cases xs)
  with Inr valid_trace(2) [of ext test_loader st x s1]
  obtain tr1 where t1: "trace s1 = trace st @ tr1" by auto
  show ?thesis
  proof (cases "mAp a ext test_loader (global_step s1) s1")
    case (Inl es)
    obtain e s2 where es: "es = (e, s2)" by (cases es)
    with Inl mAp_trace(1) [of a ext test_loader "global_step s1" s1 e s2]
    obtain tr2 where "trace s2 = trace s1 @ tr2" by auto
    with t1 Inl es Inr xs show ?thesis
      by (simp add: evaluate_def)
  next
    case mr: (Inr s2)
    with mAp_trace(2) [of a ext test_loader "global_step s1" s1 s2]
    obtain tr2 where t2: "trace s2 = trace s1 @ tr2" by auto
    show ?thesis
    proof (cases "update_best a ext x s2")
      case (Inl es)
      obtain e s3 where es: "es = (e, s3)" by (cases es)
      with Inl update_best_trace(1) [of a ext x s2 e s3]
      obtain tr3 where "trace s3 = trace s2 @ tr3" by auto
      with t1 t2 Inl es mr Inr xs show ?thesis
        by (simp add: evaluate_def)
    next
      case ur: (Inr s3)
      with update_best_trace(2) [of a ext x s2 s3]
      obtain tr3 where "trace s3 = trace s2 @ tr3" by auto
      with t1 t2 ur mr Inr xs show ?thesis
        by (simp add: evaluate_def)
    qed
  qed
qed

text \<open>
  The optimizer step of a completed window consumes every gradient accumulated since
  the last one, however many that are.
\<close>

lemma micro_batch_complete_trace:
  assumes "gradient_accumulation_steps a \<noteq> 0" and "window_complete a step"
  shows "\<exists>tr. trace (final (micro_batch a ext test_loader step batch st))
               = trace st @ Backward # Optimizer_step (Suc (pending st)) # tr"
proof -
  let ?st1 = "st\<lparr>grads := backward ext (model st) batch (grads st),
                  pending := Suc (pending st), trace := trace st @ [Backward]\<rparr>"
  let ?st2 = "log_scalars a (window_update ext ?st1)"
  let ?r = "micro_batch a ext test_loader step batch st"
  obtain tr2 where t2: "trace ?st2 = trace st @ Backward # Optimizer_step (Suc (pending st)) # tr2"
    using log_scalars_trace [of a "window_update ext ?st1"] by auto
  have "\<exists>tr. trace (final ?r) = trace ?st2 @ tr"
  proof (cases "eval_every a = 0")
    case True
    with assms show ?thesis
      by (simp add: micro_batch_def Let_def)
  next
    case False
    show ?thesis
    proof (cases "global_step ?st2 mod eval_every a = 0 \<and> is_primary a")
      case no: False
      with False assms have "final ?r = ?st2"
        by (auto simp: micro_batch_def Let_def)
      then show ?thesis by simp
    next
      case yes: True
      note p = evaluate_trace [of a ext test_loader ?st2]
      show ?thesis
      proof (cases "evaluate a ext test_loader ?st2")
        case (Inl es)
        obtain e s where "es = (e, s)" by (cases es)
        with Inl p yes False assms show ?thesis
          by (simp add: micro_batch_def Let_def)
      next
        case (Inr s)
        with p yes False assms show ?thesis
          by (simp add: micro_batch_def Let_def)
      qed
    qed
  qed
  then obtain tr where "trace (final ?r) = trace ?st2 @ tr" ..
  with t2 show ?thesis by simp
qed

text \<open>A stretch of the pass that contains no index completing a window.\<close>

lemma run_batches_incomplete:
  assumes "1 \<le> gradient_accumulation_steps a"
    and "s mod nat (gradient_accumulation_steps a) + length bs
           < nat (gradient_accumulation_steps a)"
  shows "\<exists>st'. run_batches a ext test_loader s bs st = Inr (False, st')
           \<and> trace st' = trace st @ replicate (length bs) Backward
           \<and> pending st' = pending st + length bs
           \<and> global_step st' = global_step st
           \<and> best_acc st' = best_acc st"
  using assms(2)
proof (induction bs arbitrary: s st)
  case Nil
  show ?case by simp
next
  case (Cons batch rest)
  let ?k = "nat (gradient_accumulation_steps a)"
  let ?st1 = "st\<lparr>grads := backward ext (model st) batch (grads st),
                  pending := Suc (pending st), trace := trace st @ [Backward]\<rparr>"
  from assms(1) have k0: "gradient_accumulation_steps a \<noteq> 0" by simp
  from Cons.prems have lt: "Suc (s mod ?k) < ?k" by simp
  then have sm: "Suc s mod ?k = Suc (s mod ?k)"
    by (simp add: mod_Suc)
  then have "Suc s mod ?k \<noteq> 0" by simp
  then have nw: "\<not> window_complete a s"
    unfolding window_complete_nat [OF assms(1)] .
  have r1: "micro_batch a ext test_loader s batch st = Inr (False, ?st1)"
    using k0 nw by (rule micro_batch_incomplete)
  from Cons.prems sm have "Suc s mod ?k + length rest < ?k" by simp
  from Cons.IH [OF this, of ?st1] obtain st' where st':
    "run_batches a ext test_loader (Suc s) rest ?st1 = Inr (False, st')"
    "trace st' = trace ?st1 @ replicate (length rest) Backward"
    "pending st' = pending ?st1 + length rest"
    "global_step st' = global_step ?st1"
    "best_acc st' = best_acc ?st1"
    by auto
  have "run_batches a ext test_loader s (batch # rest) st = Inr (False, st')"
    by (simp add: r1 st'(1))
  moreover have "trace st' = trace st @ replicate (length (batch # rest)) Backward"
    using st'(2) by simp
  moreover have "pending st' = pending st + length (batch # rest)"
    using st'(3) by simp
  moreover have "global_step st' = global_step st" "best_acc st' = best_acc st"
    using st'(4,5) by simp_all
  ultimately show ?case by blast
qed

lemma run_batches_append:
  "run_batches a ext test_loader s (xs @ ys) st =
     (case run_batches a ext test_loader s xs st of
        Inl e \<Rightarrow> Inl e
      | Inr (brk, st1) \<Rightarrow>
          if brk then Inr (True, st1)
          else run_batches a ext test_loader (s + length xs) ys st1)"
proof (induction xs arbitrary: s st)
  case Nil
  show ?case by simp
next
  case (Cons x xs)
  show ?case
  proof (cases "micro_batch a ext test_loader s x st")
    case (Inl e)
    then show ?thesis by simp
  next
    case (Inr bs1)
    obtain brk s1 where bs1: "bs1 = (brk, s1)" by (cases bs1)
    have l: "Suc s + length xs = s + length (x # xs)" by simp
    show ?thesis
    proof (cases brk)
      case True
      with Inr bs1 show ?thesis by simp
    next
      case False
      with Inr bs1 have "run_batches a ext test_loader s ((x # xs) @ ys) st
          = run_batches a ext test_loader (Suc s) (xs @ ys) s1"
        and "run_batches a ext test_loader s (x # xs) st
          = run_batches a ext test_loader (Suc s) xs s1"
        by simp_all
      then show ?thesis
        unfolding Cons [of "Suc s" s1] l by simp
    qed
  qed
qed

lemma final_single:
  "final (run_batches a ext test_loader s [batch] st)
     = final (micro_batch a ext test_loader s batch st)"
proof (cases "micro_batch a ext test_loader s batch st")
  case (Inl es)
  then show ?thesis by simp
next
  case (Inr bs1)
  obtain brk s1 where "bs1 = (brk, s1)" by (cases bs1)
  with Inr show ?thesis by simp
qed

text \<open>
  A pass over exactly \<open>K\<close> batches, started with \<open>pending st\<close> gradients already
  accumulated: \<open>K\<close> backward passes, then one optimizer step over all of them.
\<close>

lemma run_batches_first_window:
  assumes "1 \<le> gradient_accumulation_steps a"
    and "length bs = nat (gradient_accumulation_steps a)"
  shows "\<exists>tr. trace (final (run_batches a ext test_loader 0 bs st))
               = trace st @ replicate (nat (gradient_accumulation_steps a)) Backward
                   @ Optimizer_step (pending st + nat (gradient_accumulation_steps a)) # tr"
proof -
  let ?k = "nat (gradient_accumulation_steps a)"
  from assms have ne: "bs \<noteq> []" and k1: "1 \<le> ?k" and k0: "gradient_accumulation_steps a \<noteq> 0"
    by auto
  then have split: "bs = butlast bs @ [last bs]" by simp
  from assms(2) k1 have len: "length (butlast bs) = ?k - 1" by simp
  with k1 have "0 mod ?k + length (butlast bs) < ?k" by simp
  from run_batches_incomplete [OF assms(1) this, of ext test_loader st] obtain st1 where st1:
    "run_batches a ext test_loader 0 (butlast bs) st = Inr (False, st1)"
    "trace st1 = trace st @ replicate (length (butlast bs)) Backward"
    "pending st1 = pending st + length (butlast bs)"
    by auto
  from k1 have "Suc (?k - 1) mod ?k = 0" by simp
  then have w: "window_complete a (?k - 1)"
    unfolding window_complete_nat [OF assms(1)] .
  have "run_batches a ext test_loader 0 (butlast bs @ [last bs]) st
          = run_batches a ext test_loader (0 + length (butlast bs)) [last bs] st1"
    unfolding run_batches_append st1(1) by simp
  then have "run_batches a ext test_loader 0 (butlast bs @ [last bs]) st
          = run_batches a ext test_loader (?k - 1) [last bs] st1"
    unfolding len by simp
  then have eq: "run_batches a ext test_loader 0 bs st
          = run_batches a ext test_loader (?k - 1) [last bs] st1"
    by (subst split)
  have "final (run_batches a ext test_loader 0 bs st)
          = final (micro_batch a ext test_loader (?k - 1) (last bs) st1)"
    unfolding eq by (rule final_single)
  moreover from micro_batch_complete_trace [OF k0 w, of ext test_loader "last bs" st1]
  obtain tr where "trace (final (micro_batch a ext test_loader (?k - 1) (last bs) st1))
      = trace st1 @ Backward # Optimizer_step (Suc (pending st1)) # tr" ..
  ultimately have t: "trace (final (run_batches a ext test_loader 0 bs st))
      = (trace st1 @ [Backward]) @ Optimizer_step (Suc (pending st1)) # tr"
    by simp
  have "replicate (?k - 1) Backward @ [Backward] = replicate (Suc (?k - 1)) Backward"
    by (simp add: replicate_append_same)
  with k1 have "replicate (?k - 1) Backward @ [Backward] = replicate ?k Backward"
    by simp
  with st1(2) len have t1: "trace st1 @ [Backward] = trace st @ replicate ?k Backward"
    by simp
  from st1(3) len k1 have p1: "Suc (pending st1) = pending st + ?k"
    by arith
  have "trace (final (run_batches a ext test_loader 0 bs st))
      = trace st @ replicate ?k Backward @ Optimizer_step (pending st + ?k) # tr"
    unfolding t t1 p1 by simp
  then show ?thesis ..
qed

text \<open>
  C3 as the claim states it fails. With \<open>K = 2\<close> and three batches per epoch, the first
  epoch ends with one micro-batch pending. The first micro-batch of the second epoch
  makes two, yet no optimizer step follows it: the step comes after the second
  micro-batch of the new epoch and consumes three gradients.
\<close>

theorem window_across_epochs_counterexample:
  "map_option (map_sum (trace \<circ> snd) trace)
     (train_loop ex_args ex_ext ex_train_loader ex_test_loader ex_state)
   = Some (Inr [Backward, Backward, Optimizer_step 2,
                Add_scalar ''train/loss'' 1, Add_scalar ''train/lr'' 1,
                Backward,
                Backward, Backward, Optimizer_step 3,
                Add_scalar ''train/loss'' 2, Add_scalar ''train/lr'' 2,
                Validation 2, Add_scalar ''test/accuracy'' 2, Add_scalar ''test/loss'' 2,
                MAP_evaluation 2, Add_scalar ''test/mAp'' 2,
                Save_checkpoint ''out/best_acc_step_2_acc_0.5_checkpoint.pth''])"
  apply (subst train_loop.simps)
  apply (simp add: ex_args_def ex_ext_def ex_state_def ex_train_loader_def ex_test_loader_def
      micro_batch_def window_complete_def window_update_def log_scalars_def is_primary_def
      Let_def)
  apply (subst train_loop.simps)
  apply (simp add: micro_batch_def window_complete_def window_update_def log_scalars_def
      is_primary_def evaluate_def valid_def simple_accuracy_def mAp_def one_hot_def
      confusion_k_def update_best_def save_model_complete_def checkpoint_target_def path_join_def
      format_int_def digits.simps ex_format_def Let_def)
  done

text \<open>
  C3, amended. The window count is not carried across the epoch boundary: every pass
  of the \<^verbatim>\<open>while\<close> loop counts from index 0, so with \<open>K \<ge> 1\<close> no optimizer step
  happens during the first \<open>K - 1\<close> micro-batches of a pass, however many micro-batches
  were left pending by the pass before, and the window condition fires after \<open>K\<close>
  micro-batches of the new pass alone. The pending gradients are kept, and that first
  optimizer step consumes them together with the \<open>K\<close> new ones.
\<close>

theorem window_restarts_each_epoch:
  assumes "1 \<le> gradient_accumulation_steps a"
  shows "train_loop a ext train_loader test_loader st =
           (case run_batches a ext test_loader 0 train_loader st of
              Inl e \<Rightarrow> Some (Inl e)
            | Inr (brk, st1) \<Rightarrow>
                if num_steps a = 0 then Some (Inl (ZeroDivisionError, st1))
                else if global_step st1 mod num_steps a = 0 then Some (Inr st1)
                else train_loop a ext train_loader test_loader st1)
       \<and> (length bs < nat (gradient_accumulation_steps a) \<longrightarrow>
            (\<exists>st'. run_batches a ext test_loader 0 bs st = Inr (False, st')
                 \<and> trace st' = trace st @ replicate (length bs) Backward
                 \<and> pending st' = pending st + length bs
                 \<and> global_step st' = global_step st))
       \<and> (length bs = nat (gradient_accumulation_steps a) \<longrightarrow>
            (\<exists>tr. trace (final (run_batches a ext test_loader 0 bs st))
                 = trace st @ replicate (nat (gradient_accumulation_steps a)) Backward
                     @ Optimizer_step (pending st + nat (gradient_accumulation_steps a)) # tr))"
proof -
  have l: "train_loop a ext train_loader test_loader st =
           (case run_batches a ext test_loader 0 train_loader st of
              Inl e \<Rightarrow> Some (Inl e)
            | Inr (brk, st1) \<Rightarrow>
                if num_steps a = 0 then Some (Inl (ZeroDivisionError, st1))
                else if global_step st1 mod num_steps a = 0 then Some (Inr st1)
                else train_loop a ext train_loader test_loader st1)"
    by (rule train_loop.simps)
  have s: "length bs < nat (gradient_accumulation_steps a) \<longrightarrow>
            (\<exists>st'. run_batches a ext test_loader 0 bs st = Inr (False, st')
                 \<and> trace st' = trace st @ replicate (length bs) Backward
                 \<and> pending st' = pending st + length bs
                 \<and> global_step st' = global_step st)"
  proof
    assume "length bs < nat (gradient_accumulation_steps a)"
    then have "0 mod nat (gradient_accumulation_steps a) + length bs
                 < nat (gradient_accumulation_steps a)"
      by simp
    from run_batches_incomplete [OF assms this, of ext test_loader st]
    show "\<exists>st'. run_batches a ext test_loader 0 bs st = Inr (False, st')
                 \<and> trace st' = trace st @ replicate (length bs) Backward
                 \<and> pending st' = pending st + length bs
                 \<and> global_step st' = global_step st"
      by blast
  qed
  have f: "length bs = nat (gradient_accumulation_steps a) \<longrightarrow>
            (\<exists>tr. trace (final (run_batches a ext test_loader 0 bs st))
                 = trace st @ replicate (nat (gradient_accumulation_steps a)) Backward
                     @ Optimizer_step (pending st + nat (gradient_accumulation_steps a)) # tr)"
    using run_batches_first_window [OF assms] by blast
  from l s f show ?thesis by (intro conjI)
qed

theorem window_restarts_each_epoch_witness:
  "1 \<le> gradient_accumulation_steps ex_args
   \<and> run_batches ex_args ex_ext ex_test_loader 0 [[(0, 0)]] (ex_state\<lparr>pending := 1\<rparr>)
       = Inr (False, ex_state\<lparr>grads := 1, pending := 2, trace := [Backward]\<rparr>)
   \<and> take 3 (trace (final (run_batches ex_args ex_ext ex_test_loader 0 [[(0, 0)], [(1, 1)]]
                              (ex_state\<lparr>pending := 1\<rparr>))))
       = [Backward, Backward, Optimizer_step 3]"
proof -
  have k: "1 \<le> gradient_accumulation_steps ex_args"
    and n: "nat (gradient_accumulation_steps ex_args) = 2"
    by (simp_all add: ex_args_def)
  have one: "run_batches ex_args ex_ext ex_test_loader 0 [[(0, 0)]] (ex_state\<lparr>pending := 1\<rparr>)
       = Inr (False, ex_state\<lparr>grads := 1, pending := 2, trace := [Backward]\<rparr>)"
    by (simp add: micro_batch_def window_complete_def ex_args_def ex_ext_def ex_state_def)
  from window_restarts_each_epoch [OF k, where bs = "[[(0, 0)], [(1, 1)]]" and ext = ex_ext
      and test_loader = ex_test_loader and st = "ex_state\<lparr>pending := 1\<rparr>"
      and train_loader = ex_train_loader]
  obtain tr where "trace (final (run_batches ex_args ex_ext ex_test_loader 0 [[(0, 0)], [(1, 1)]]
                              (ex_state\<lparr>pending := 1\<rparr>)))
       = trace (ex_state\<lparr>pending := 1\<rparr>) @ replicate 2 Backward
           @ Optimizer_step (pending (ex_state\<lparr>pending := 1\<rparr>) + 2) # tr"
    unfolding n by auto
  then have two: "take 3 (trace (final (run_batches ex_args ex_ext ex_test_loader 0
                              [[(0, 0)], [(1, 1)]] (ex_state\<lparr>pending := 1\<rparr>))))
       = [Backward, Backward, Optimizer_step 3]"
    by (simp add: ex_state_def numeral_2_eq_2)
  from k one two show ?thesis by (intro conjI)
qed

section \<open>Termination of the training loop\<close>

lemma valid_ok:
  assumes "test_loader \<noteq> []"
  shows "\<exists>x s. valid ext test_loader st = Inr (x, s)"
  using assms by (simp add: valid_def Let_def)

lemma update_best_ok:
  assumes "numeric_value (best_acc st) = Some b"
  shows "\<exists>st' b'. update_best a ext x st = Inr st' \<and> numeric_value (best_acc st') = Some b'"
  using update_best_follows_policy [OF assms, of a ext x] by blast

lemma evaluate_ok:
  assumes "test_loader \<noteq> []" and "mAp_targets test_loader = Inr ts"
    and "numeric_value (best_acc st) = Some b" and "global_step st \<noteq> - 1"
    and "num_outputs ext = confusion_k"
  shows "\<exists>st' b'. evaluate a ext test_loader st = Inr st'
           \<and> numeric_value (best_acc st') = Some b'"
proof -
  from valid_ok [OF assms(1)] obtain x s1 where v: "valid ext test_loader st = Inr (x, s1)"
    by blast
  from valid_progress(2) [OF v] assms(4) have g: "global_step s1 \<noteq> - 1"
    by (simp add: same_progress_def)
  let ?s2 = "s1\<lparr>trace := trace s1 @ [MAP_evaluation (global_step s1),
                                       Add_scalar ''test/mAp'' (global_step s1)]\<rparr>"
  have m: "mAp a ext test_loader (global_step s1) s1 = Inr ?s2"
    by (rule mAp_passes [OF assms(2) g assms(5) assms(1)])
  from valid_best(2) [OF v] assms(3) have "numeric_value (best_acc ?s2) = Some b"
    by simp
  from update_best_ok [OF this, of a ext x] obtain st' b' where
    "update_best a ext x ?s2 = Inr st'" "numeric_value (best_acc st') = Some b'"
    by blast
  with v m show ?thesis
    by (simp add: evaluate_def)
qed

text \<open>
  Under the conditions below no line of the loop body raises: the three moduli are not
  zero, the evaluation set is not empty and has no label outside \<open>[0, 40)\<close>, the best
  accuracy is a number, and the model has the 40 outputs that the confusion matrix of the
  mAP pass expects.
\<close>

lemma micro_batch_ok:
  assumes "gradient_accumulation_steps a \<noteq> 0" and "eval_every a \<noteq> 0" and "num_steps a \<noteq> 0"
    and "test_loader \<noteq> []" and "mAp_targets test_loader = Inr ts"
    and "numeric_value (best_acc st) = Some b" and "0 \<le> global_step st"
    and "num_outputs ext = confusion_k"
  shows "\<exists>st' b'. micro_batch a ext test_loader s batch st
               = Inr (window_complete a s \<and> (global_step st + 1) mod num_steps a = 0, st')
           \<and> numeric_value (best_acc st') = Some b'"
proof (cases "window_complete a s")
  case False
  with assms(1,6) show ?thesis
    by (simp add: micro_batch_incomplete)
next
  case True
  let ?st1 = "st\<lparr>grads := backward ext (model st) batch (grads st),
                  pending := Suc (pending st), trace := trace st @ [Backward]\<rparr>"
  let ?st2 = "log_scalars a (window_update ext ?st1)"
  have n2: "numeric_value (best_acc ?st2) = Some b" and g2: "global_step ?st2 = global_step st + 1"
    using assms(6) by simp_all
  have "\<exists>st3 b'. (if global_step ?st2 mod eval_every a = 0 \<and> is_primary a
                   then evaluate a ext test_loader ?st2 else Inr ?st2) = Inr st3
          \<and> numeric_value (best_acc st3) = Some b' \<and> global_step st3 = global_step st + 1"
  proof (cases "global_step ?st2 mod eval_every a = 0 \<and> is_primary a")
    case False
    with n2 g2 show ?thesis by auto
  next
    case yes: True
    from g2 assms(7) have "global_step ?st2 \<noteq> - 1" by simp
    from evaluate_ok [OF assms(4,5) n2 this assms(8), where a = a] obtain st3 b' where
      e: "evaluate a ext test_loader ?st2 = Inr st3" "numeric_value (best_acc st3) = Some b'"
      by blast
    from evaluate_progress [of ?st2 a ext test_loader] e(1) g2
    have "global_step st3 = global_step st + 1"
      by (simp add: same_progress_def)
    with yes e show ?thesis by auto
  qed
  then obtain st3 b' where st3:
    "(if global_step ?st2 mod eval_every a = 0 \<and> is_primary a
      then evaluate a ext test_loader ?st2 else Inr ?st2) = Inr st3"
    "numeric_value (best_acc st3) = Some b'" "global_step st3 = global_step st + 1"
    by blast
  have "micro_batch a ext test_loader s batch st
          = Inr (global_step st3 mod num_steps a = 0, st3)"
    using True assms(1,2,3) st3(1) by (simp add: micro_batch_def Let_def)
  with True st3(2,3) show ?thesis by simp
qed

lemma run_batches_ok:
  assumes "1 \<le> gradient_accumulation_steps a" and "eval_every a \<noteq> 0"
    and "test_loader \<noteq> []" and "mAp_targets test_loader = Inr ts"
    and "num_outputs ext = confusion_k"
  shows "numeric_value (best_acc st) = Some b \<Longrightarrow> 0 \<le> global_step st
         \<Longrightarrow> global_step st < num_steps a
         \<Longrightarrow> \<exists>brk st' b'. run_batches a ext test_loader s bs st = Inr (brk, st')
               \<and> numeric_value (best_acc st') = Some b'
               \<and> (if int ((s + length bs) div nat (gradient_accumulation_steps a))
                        - int (s div nat (gradient_accumulation_steps a))
                      < num_steps a - global_step st
                   then \<not> brk
                        \<and> global_step st'
                            = global_step st
                              + int ((s + length bs) div nat (gradient_accumulation_steps a))
                              - int (s div nat (gradient_accumulation_steps a))
                   else global_step st' = num_steps a \<and> pending st' = 0)"
proof (induction bs arbitrary: s st b)
  case Nil
  then show ?case by auto
next
  case (Cons batch rest)
  let ?k = "nat (gradient_accumulation_steps a)"
  let ?T = "num_steps a"
  from assms(1) have k0: "gradient_accumulation_steps a \<noteq> 0" by simp
  from Cons.prems have T0: "?T \<noteq> 0" by simp
  from micro_batch_ok [OF k0 assms(2) T0 assms(3,4) Cons.prems(1,2) assms(5),
      where s = s and batch = batch]
  obtain s1 b1 where s1:
    "micro_batch a ext test_loader s batch st
       = Inr (window_complete a s \<and> (global_step st + 1) mod ?T = 0, s1)"
    "numeric_value (best_acc s1) = Some b1"
    by blast
  then have f: "final (micro_batch a ext test_loader s batch st) = s1" by simp
  have sl: "s + length (batch # rest) = Suc s + length rest" by simp
  show ?case
  proof (cases "window_complete a s")
    case False
    then have "Suc s mod ?k \<noteq> 0"
      unfolding window_complete_nat [OF assms(1)] .
    then have d: "Suc s div ?k = s div ?k" by (rule Suc_div_incomplete)
    from f have "s1 = st\<lparr>grads := backward ext (model st) batch (grads st),
                         pending := Suc (pending st), trace := trace st @ [Backward]\<rparr>"
      unfolding micro_batch_incomplete [OF k0 False] by simp
    then have g1: "global_step s1 = global_step st"
      by simp
    from False s1(1) have run: "run_batches a ext test_loader s (batch # rest) st
        = run_batches a ext test_loader (Suc s) rest s1"
      by simp
    from Cons.prems g1 have p: "0 \<le> global_step s1" "global_step s1 < ?T" by simp_all
    from Cons.IH [OF s1(2) p, of "Suc s"] show ?thesis
      unfolding run sl d g1 .
  next
    case True
    then have "Suc s mod ?k = 0"
      unfolding window_complete_nat [OF assms(1)] .
    then have d: "Suc s div ?k = Suc (s div ?k)" by (rule Suc_div_complete)
    from micro_batch_complete(1,2) [OF k0 True, of ext test_loader batch st] f
    have g1: "global_step s1 = global_step st + 1" and p1: "pending s1 = 0"
      by simp_all
    have mono: "Suc s div ?k \<le> (Suc s + length rest) div ?k"
      by (rule div_le_mono) simp
    show ?thesis
    proof (cases "global_step st + 1 = ?T")
      case last: True
      with True s1(1) have run: "run_batches a ext test_loader s (batch # rest) st = Inr (True, s1)"
        by simp
      from mono d last have "\<not> int ((Suc s + length rest) div ?k) - int (s div ?k)
                                 < ?T - global_step st"
        by simp
      with g1 p1 last have
        "if int ((Suc s + length rest) div ?k) - int (s div ?k) < ?T - global_step st
         then \<not> True \<and> global_step s1
                = global_step st + int ((Suc s + length rest) div ?k) - int (s div ?k)
         else global_step s1 = ?T \<and> pending s1 = 0"
        by simp
      with run s1(2) show ?thesis
        unfolding sl by blast
    next
      case more: False
      with Cons.prems have lt: "global_step st + 1 < ?T" by simp
      with Cons.prems have "(global_step st + 1) mod ?T \<noteq> 0" by simp
      with s1(1) have run: "run_batches a ext test_loader s (batch # rest) st
          = run_batches a ext test_loader (Suc s) rest s1"
        by simp
      from Cons.prems g1 lt have p: "0 \<le> global_step s1" "global_step s1 < ?T" by simp_all
      from Cons.IH [OF s1(2) p, of "Suc s"] obtain brk st' b' where r:
        "run_batches a ext test_loader (Suc s) rest s1 = Inr (brk, st')"
        "numeric_value (best_acc st') = Some b'"
        "if int ((Suc s + length rest) div ?k) - int (Suc s div ?k) < ?T - global_step s1
         then \<not> brk \<and> global_step st'
                = global_step s1 + int ((Suc s + length rest) div ?k) - int (Suc s div ?k)
         else global_step st' = ?T \<and> pending st' = 0"
        by blast
      have c: "int ((Suc s + length rest) div ?k) - int (Suc s div ?k) < ?T - global_step s1
            \<longleftrightarrow> int ((Suc s + length rest) div ?k) - int (s div ?k) < ?T - global_step st"
        unfolding d g1 by simp
      have v: "global_step s1 + int ((Suc s + length rest) div ?k) - int (Suc s div ?k)
            = global_step st + int ((Suc s + length rest) div ?k) - int (s div ?k)"
        unfolding d g1 by simp
      from r(3) have "if int ((Suc s + length rest) div ?k) - int (s div ?k) < ?T - global_step st
         then \<not> brk \<and> global_step st'
                = global_step st + int ((Suc s + length rest) div ?k) - int (s div ?k)
         else global_step st' = ?T \<and> pending st' = 0"
        unfolding c v .
      with r(1,2) show ?thesis
        unfolding run sl by blast
    qed
  qed
qed

lemma run_batches_steps_invariant:
  assumes "1 \<le> gradient_accumulation_steps a"
  shows "int (optimizer_steps (trace (final (run_batches a ext test_loader s bs st))))
           - global_step (final (run_batches a ext test_loader s bs st))
         = int (optimizer_steps (trace st)) - global_step st"
proof -
  let ?k = "nat (gradient_accumulation_steps a)"
  let ?f = "final (run_batches a ext test_loader s bs st)"
  from run_batches_counts [OF assms, of ext test_loader s bs st] obtain b where
    "global_step ?f + int (s div ?k) = global_step st + int ((s + b) div ?k)"
    "optimizer_steps (trace ?f) + s div ?k = optimizer_steps (trace st) + (s + b) div ?k"
    by auto
  then show ?thesis by linarith
qed

lemma train_loop_reaches_total:
  assumes "1 \<le> gradient_accumulation_steps a" and "eval_every a \<noteq> 0"
    and "test_loader \<noteq> []" and "mAp_targets test_loader = Inr ts"
    and "nat (gradient_accumulation_steps a) \<le> length train_loader"
    and "num_outputs ext = confusion_k"
  shows "numeric_value (best_acc st) = Some b \<Longrightarrow> 0 \<le> global_step st
         \<Longrightarrow> global_step st < num_steps a
         \<Longrightarrow> \<exists>st'. train_loop a ext train_loader test_loader st = Some (Inr st')
               \<and> global_step st' = num_steps a \<and> pending st' = 0
               \<and> int (optimizer_steps (trace st')) - global_step st'
                   = int (optimizer_steps (trace st)) - global_step st"
proof (induction "nat (num_steps a - global_step st)" arbitrary: st b rule: less_induct)
  case less
  let ?k = "nat (gradient_accumulation_steps a)"
  let ?T = "num_steps a"
  let ?w = "length train_loader div ?k"
  from less.prems have T0: "?T \<noteq> 0" by simp
  from assms(1) have "0 < ?k" by simp
  with assms(5) have w1: "1 \<le> ?w"
    by (simp add: Suc_le_eq div_greater_zero_iff)
  from run_batches_ok [OF assms(1-4) assms(6) less.prems, where s = 0 and bs = train_loader]
  obtain brk s1 b1 where r:
    "run_batches a ext test_loader 0 train_loader st = Inr (brk, s1)"
    "numeric_value (best_acc s1) = Some b1"
    "if int ((0 + length train_loader) div ?k) - int (0 div ?k) < ?T - global_step st
     then \<not> brk \<and> global_step s1
            = global_step st + int ((0 + length train_loader) div ?k) - int (0 div ?k)
     else global_step s1 = ?T \<and> pending s1 = 0"
    by blast
  from run_batches_steps_invariant [OF assms(1), of ext test_loader 0 train_loader st] r(1)
  have inv: "int (optimizer_steps (trace s1)) - global_step s1
               = int (optimizer_steps (trace st)) - global_step st"
    by simp
  show ?case
  proof (cases "int ?w < ?T - global_step st")
    case False
    with r(3) have e: "global_step s1 = ?T" "pending s1 = 0" by simp_all
    have "train_loop a ext train_loader test_loader st = Some (Inr s1)"
      by (subst train_loop.simps) (simp add: r(1) e T0)
    with e inv show ?thesis by simp
  next
    case True
    with r(3) have g1: "global_step s1 = global_step st + int ?w" by simp
    with True w1 less.prems have p: "0 \<le> global_step s1" "global_step s1 < ?T"
      and gt: "global_step st < global_step s1"
      by simp_all
    from gt less.prems(2) have "0 < global_step s1" by linarith
    with p have "global_step s1 mod ?T \<noteq> 0" by simp
    then have step: "train_loop a ext train_loader test_loader st
                       = train_loop a ext train_loader test_loader s1"
      by (subst train_loop.simps) (simp add: r(1) T0)
    from gt p have "nat (?T - global_step s1) < nat (?T - global_step st)" by simp
    from less.hyps [OF this r(2) p] obtain st' where
      "train_loop a ext train_loader test_loader s1 = Some (Inr st')"
      "global_step st' = ?T" "pending st' = 0"
      "int (optimizer_steps (trace st')) - global_step st'
         = int (optimizer_steps (trace s1)) - global_step s1"
      by blast
    with step inv show ?thesis by simp
  qed
qed

text \<open>
  C6 as the claim states it fails: with \<open>K = 2\<close> and a single batch per epoch no
  window is ever completed in the first epoch, the step counter is still 0 at line 350,
  \<open>0 mod T = 0\<close>, and the loop ends after one micro-batch without any optimizer step,
  although \<open>T = 2\<close>.
\<close>

theorem total_steps_counterexample:
  "global_step ex_state = 0
   \<and> num_steps ex_args = 2
   \<and> train_loop ex_args ex_ext [[(0, 0)]] ex_test_loader ex_state
       = Some (Inr (ex_state\<lparr>grads := 1, pending := 1, trace := [Backward]\<rparr>))
   \<and> optimizer_steps [Backward] = 0"
proof -
  have "train_loop ex_args ex_ext [[(0, 0)]] ex_test_loader ex_state
       = Some (Inr (ex_state\<lparr>grads := 1, pending := 1, trace := [Backward]\<rparr>))"
    by (subst train_loop.simps)
       (simp add: micro_batch_def window_complete_def ex_args_def ex_ext_def ex_state_def)
  then show ?thesis
    by (simp add: ex_state_def ex_args_def)
qed

text \<open>
  C6, amended. A run started at step 0 with \<open>T > 0\<close> total steps, an accumulation
  factor \<open>K \<ge> 1\<close>, at least \<open>K\<close> batches per epoch, and in which evaluation cannot raise
  (evaluation interval not 0, evaluation set not empty and within the 40 classes of the
  mAP pass, numeric best accuracy, and a model built with the class count of the dataset
  option, which is 40), leaves the loop with the step counter at \<open>T\<close>, after exactly \<open>T\<close>
  optimizer steps, and with no micro-batch processed after the last of them: it stops
  right at the optimizer step that reaches \<open>T\<close>.
\<close>

theorem train_loop_total_steps:
  assumes "global_step st = 0" and "0 < num_steps a"
    and "1 \<le> gradient_accumulation_steps a"
    and "nat (gradient_accumulation_steps a) \<le> length train_loader"
    and "eval_every a \<noteq> 0" and "test_loader \<noteq> []" and "\<not> isl (mAp_targets test_loader)"
    and "numeric_value (best_acc st) \<noteq> None"
    and "num_outputs ext = num_classes a" and "num_classes a = confusion_k"
  shows "\<exists>st'. train_loop a ext train_loader test_loader st = Some (Inr st')
           \<and> global_step st' = num_steps a
           \<and> optimizer_steps (trace st') = optimizer_steps (trace st) + nat (num_steps a)
           \<and> pending st' = 0"
proof -
  from assms(7) obtain ts where ts: "mAp_targets test_loader = Inr ts"
    by (cases "mAp_targets test_loader") simp_all
  from assms(8) obtain b where b: "numeric_value (best_acc st) = Some b"
    by blast
  from assms(1,2) have g: "0 \<le> global_step st" "global_step st < num_steps a"
    by simp_all
  from assms(9,10) have w: "num_outputs ext = confusion_k"
    by simp
  from train_loop_reaches_total [OF assms(3,5,6) ts assms(4) w b g]
  obtain st' where st':
    "train_loop a ext train_loader test_loader st = Some (Inr st')"
    "global_step st' = num_steps a" "pending st' = 0"
    "int (optimizer_steps (trace st')) - global_step st'
       = int (optimizer_steps (trace st)) - global_step st"
    by blast
  from st'(2,4) assms(1,2) have "optimizer_steps (trace st')
      = optimizer_steps (trace st) + nat (num_steps a)"
    by simp
  with st'(1-3) show ?thesis by blast
qed

theorem train_loop_total_steps_witness:
  "global_step ex_state = 0 \<and> 0 < num_steps ex_args
   \<and> 1 \<le> gradient_accumulation_steps ex_args
   \<and> nat (gradient_accumulation_steps ex_args) \<le> length ex_train_loader
   \<and> eval_every ex_args \<noteq> 0 \<and> ex_test_loader \<noteq> []
   \<and> \<not> isl (mAp_targets ex_test_loader)
   \<and> numeric_value (best_acc ex_state) \<noteq> None
   \<and> num_outputs ex_ext = num_classes ex_args \<and> num_classes ex_args = confusion_k
   \<and> map_option (map_sum (global_step \<circ> snd) global_step)
         (train_loop ex_args ex_ext ex_train_loader ex_test_loader ex_state) = Some (Inr 2)
   \<and> map_option (map_sum (optimizer_steps \<circ> trace \<circ> snd) (optimizer_steps \<circ> trace))
         (train_loop ex_args ex_ext ex_train_loader ex_test_loader ex_state) = Some (Inr 2)
   \<and> map_option (map_sum (pending \<circ> snd) pending)
         (train_loop ex_args ex_ext ex_train_loader ex_test_loader ex_state) = Some (Inr 0)"
proof -
  have h: "global_step ex_state = 0" "0 < num_steps ex_args"
    "1 \<le> gradient_accumulation_steps ex_args"
    "nat (gradient_accumulation_steps ex_args) \<le> length ex_train_loader"
    "eval_every ex_args \<noteq> 0" "ex_test_loader \<noteq> []"
    "\<not> isl (mAp_targets ex_test_loader)"
    "numeric_value (best_acc ex_state) \<noteq> None"
    "num_outputs ex_ext = num_classes ex_args" "num_classes ex_args = confusion_k"
    by (simp_all add: ex_state_def ex_args_def ex_ext_def ex_train_loader_def ex_test_loader_def
        one_hot_def num_classes_def confusion_k_def)
  from train_loop_total_steps [OF h] obtain st' where
    "train_loop ex_args ex_ext ex_train_loader ex_test_loader ex_state = Some (Inr st')"
    "global_step st' = num_steps ex_args"
    "optimizer_steps (trace st') = optimizer_steps (trace ex_state) + nat (num_steps ex_args)"
    "pending st' = 0"
    by blast
  then have "map_option (map_sum (global_step \<circ> snd) global_step)
         (train_loop ex_args ex_ext ex_train_loader ex_test_loader ex_state) = Some (Inr 2)"
    "map_option (map_sum (optimizer_steps \<circ> trace \<circ> snd) (optimizer_steps \<circ> trace))
         (train_loop ex_args ex_ext ex_train_loader ex_test_loader ex_state) = Some (Inr 2)"
    "map_option (map_sum (pending \<circ> snd) pending)
         (train_loop ex_args ex_ext ex_train_loader ex_test_loader ex_state) = Some (Inr 0)"
    by (simp_all add: ex_args_def ex_state_def)
  with h show ?thesis by (intro conjI)
qed

section \<open>Resuming with a missing best accuracy\<close>










section \<open>Workers other than the primary\<close>

lemma micro_batch_nonprimary:
  assumes "\<not> is_primary a" and "gradient_accumulation_steps a \<noteq> 0"
  shows "trace (final (micro_batch a ext test_loader s batch st))
           = trace st @ (if window_complete a s
                         then [Backward, Optimizer_step (Suc (pending st))]
                         else [Backward])"
proof (cases "window_complete a s")
  case False
  with assms show ?thesis
    by (simp add: micro_batch_incomplete)
next
  case True
  show ?thesis
  proof (cases "eval_every a = 0")
    case e0: True
    with True assms show ?thesis
      by (simp add: micro_batch_def Let_def log_scalars_def)
  next
    case e1: False
    show ?thesis
    proof (cases "num_steps a = 0")
      case t0: True
      with e1 True assms show ?thesis
        by (simp add: micro_batch_def Let_def log_scalars_def)
    next
      case t1: False
      with e1 True assms show ?thesis
        by (simp add: micro_batch_def Let_def log_scalars_def)
    qed
  qed
qed

text \<open>
  C4. On a worker that is not the primary, \<^verbatim>\<open>train\<close> never gets to its loop: line 294
  calls \<^verbatim>\<open>mAp\<close> outside any rank test and reads \<^verbatim>\<open>writer\<close>, which only the primary
  has assigned, so the call raises \<^verbatim>\<open>UnboundLocalError\<close>. Inside the loop every
  logging, evaluation and checkpoint call is behind the rank test: there a micro-batch
  on such a worker adds only its backward pass and, at a completed window, the
  optimizer step.
\<close>

theorem train_on_other_rank:
  assumes "\<not> is_primary a"
  shows "(\<exists>e s. train a ext train_loader test_loader st = Some (Inl (e, s)))
       \<and> (gradient_accumulation_steps a \<noteq> 0 \<and> input_dir a = None \<longrightarrow>
            train a ext train_loader test_loader st
              = Some (Inl (UnboundLocalError ''writer'',
                           st\<lparr>optimizer := new_optimizer ext (model st), global_step := 0,
                              best_acc := PInt 0, grads := zero_grad ext, pending := 0\<rparr>)))
       \<and> (gradient_accumulation_steps a \<noteq> 0 \<longrightarrow>
            trace (final (micro_batch a ext test_loader i batch st))
              = trace st @ (if window_complete a i
                            then [Backward, Optimizer_step (Suc (pending st))]
                            else [Backward]))"
proof -
  have g: "\<exists>e s. train a ext train_loader test_loader st = Some (Inl (e, s))"
  proof (cases "gradient_accumulation_steps a = 0")
    case True
    then show ?thesis by (simp add: train_def)
  next
    case False
    show ?thesis
    proof (cases "resume a (st\<lparr>optimizer := new_optimizer ext (model st)\<rparr>)")
      case (Inl es)
      with False assms show ?thesis
        by (cases es) (simp add: train_def)
    next
      case (Inr s2)
      with False assms show ?thesis
        by (simp add: train_def)
    qed
  qed
  have u: "gradient_accumulation_steps a \<noteq> 0 \<and> input_dir a = None \<longrightarrow>
            train a ext train_loader test_loader st
              = Some (Inl (UnboundLocalError ''writer'',
                           st\<lparr>optimizer := new_optimizer ext (model st), global_step := 0,
                              best_acc := PInt 0, grads := zero_grad ext, pending := 0\<rparr>))"
    using assms by (simp add: train_def resume_none)
  have m: "gradient_accumulation_steps a \<noteq> 0 \<longrightarrow>
            trace (final (micro_batch a ext test_loader i batch st))
              = trace st @ (if window_complete a i
                            then [Backward, Optimizer_step (Suc (pending st))]
                            else [Backward])"
    using micro_batch_nonprimary [OF assms] by blast
  from g u m show ?thesis by (intro conjI)
qed

theorem train_on_other_rank_witness:
  "\<not> is_primary (ex_args\<lparr>local_rank := 1\<rparr>)
   \<and> train (ex_args\<lparr>local_rank := 1\<rparr>) ex_ext ex_train_loader ex_test_loader ex_state
       = Some (Inl (UnboundLocalError ''writer'', ex_state))"
proof -
  have r: "\<not> is_primary (ex_args\<lparr>local_rank := 1\<rparr>)"
    by (simp add: is_primary_def)
  have h: "gradient_accumulation_steps (ex_args\<lparr>local_rank := 1\<rparr>) \<noteq> 0
           \<and> input_dir (ex_args\<lparr>local_rank := 1\<rparr>) = None"
    by (simp add: ex_args_def)
  have s: "ex_state\<lparr>optimizer := new_optimizer ex_ext (model ex_state), global_step := 0,
                     best_acc := PInt 0, grads := zero_grad ex_ext, pending := 0\<rparr> = ex_state"
    by (simp add: ex_state_def ex_ext_def)
  from train_on_other_rank [OF r, where ext = ex_ext and train_loader = ex_train_loader
      and test_loader = ex_test_loader and st = ex_state and i = 0 and batch = "[]"] h
  have "train (ex_args\<lparr>local_rank := 1\<rparr>) ex_ext ex_train_loader ex_test_loader ex_state
       = Some (Inl (UnboundLocalError ''writer'',
            ex_state\<lparr>optimizer := new_optimizer ex_ext (model ex_state), global_step := 0,
                     best_acc := PInt 0, grads := zero_grad ex_ext, pending := 0\<rparr>))"
    by blast
  with r show ?thesis unfolding s by (intro conjI)
qed

end
